theory Spec2Isabelle
  imports Main "HOL-Library.Word"
begin

unbundle bit_operations_syntax

section \<open>Words, bytes and addresses\<close>

text \<open>
  The instrumentation works on machine words of the width of a pointer (\<open>void*\<close>,
  \<open>uintptr_t\<close>). The word type is the parameter \<open>'w\<close>: \<open>64 word\<close> on a 64-bit
  target, \<open>32 word\<close> on the ia32 target of the build files. Addresses are byte
  addresses; \<open>base + i\<close> on a \<open>void**\<close> advances by \<open>i\<close> words, that is by
  \<open>i * sizeof(void*)\<close> bytes.
\<close>

type_synonym byte = "8 word"
type_synonym addr = nat

text \<open>\<open>sizeof(void*)\<close>, in bytes.\<close>

definition sizeof_ptr :: "'w::len itself \<Rightarrow> nat" where
  "sizeof_ptr t = LENGTH('w) div 8"

text \<open>
  The unions of the source view the same storage as words and as bytes. On the x86
  targets of the build files the view is little-endian: byte \<open>k\<close> of a word holds its
  bits \<open>8k .. 8k+7\<close>.
\<close>

definition byte_of :: "'w::len word \<Rightarrow> nat \<Rightarrow> byte" where
  "byte_of w k = ucast (drop_bit (8 * k) w)"

definition bytes_of_word :: "'w::len word \<Rightarrow> byte list" where
  "bytes_of_word w = map (byte_of w) [0..<sizeof_ptr TYPE('w)]"

fun word_of_bytes :: "byte list \<Rightarrow> 'w::len word" where
  "word_of_bytes [] = 0"
| "word_of_bytes (b # bs) = ucast b OR push_bit 8 (word_of_bytes bs)"

definition bytes_of_words :: "'w::len word list \<Rightarrow> byte list" where
  "bytes_of_words ws = concat (map bytes_of_word ws)"

definition words_of_bytes :: "byte list \<Rightarrow> 'w::len word list" where
  "words_of_bytes bs =
     map (\<lambda>i. word_of_bytes (take (sizeof_ptr TYPE('w)) (drop (i * sizeof_ptr TYPE('w)) bs)))
       [0..<length bs div sizeof_ptr TYPE('w)]"

section \<open>Mask arithmetic\<close>

text \<open>
  \<open>make_mask\<close> of \<open>inst.hpp\<close> and \<open>inst-common.hpp\<close> (the two copies are the same
  text). The source documents the range \<open>0 <= i < j <= sizeof(void*)\<close> in a comment and
  does not check it. The \<open>size_t\<close> expression \<open>sizeof(void*) - j + i\<close> is computed
  modulo a power of two, so it is \<open>sizeof(void*) + i - j\<close> whenever
  \<open>j \<le> sizeof(void*) + i\<close>, which the documented range implies; beyond that, and for
  \<open>i = j\<close>, the shift count reaches the width of the word, which C++ leaves undefined.
\<close>

definition make_mask :: "nat \<Rightarrow> nat \<Rightarrow> 'w::len word" where
  "make_mask i j =
     (let mask = NOT (0 :: 'w word);
          mask = drop_bit (8 * (sizeof_ptr TYPE('w) + i - j)) mask;
          mask = push_bit (8 * i) mask
      in mask)"

text \<open>\<open>min\<close> of the same headers.\<close>

definition min_size :: "nat \<Rightarrow> nat \<Rightarrow> nat" where
  "min_size lhs rhs = (if lhs < rhs then lhs else rhs)"

section \<open>Local buffers\<close>

text \<open>
  Every access assembles or takes apart the value in a local buffer (a union of words and
  bytes). A value of type \<open>T\<close> is its object representation: a list of \<open>sizeof(T)\<close>
  bytes. An access past the end of a local buffer, and a read of bytes of it that were
  never written, are undefined in C++; the model returns them as errors.
\<close>

datatype error = OutOfBounds | Indeterminate

text \<open>\<open>*reinterpret_cast<T*>(buf + off)\<close> as an rvalue: the \<open>sz\<close> bytes at \<open>off\<close>.\<close>

definition load_T :: "byte list \<Rightarrow> nat \<Rightarrow> nat \<Rightarrow> error + byte list" where
  "load_T buf off sz =
     (if off + sz \<le> length buf then Inr (take sz (drop off buf)) else Inl OutOfBounds)"

text \<open>\<open>*reinterpret_cast<T*>(buf + off) = val\<close>.\<close>

definition store_T :: "byte list \<Rightarrow> nat \<Rightarrow> byte list \<Rightarrow> error + byte list" where
  "store_T buf off val =
     (if off + length val \<le> length buf
      then Inr (take off buf @ val @ drop (off + length val) buf)
      else Inl OutOfBounds)"

section \<open>Address decomposition\<close>

text \<open>
  Modelled from the spec: \<open>base_of\<close> and \<open>offset_of\<close> are declared in \<open>Utilities.h\<close>,
  which is not among the sources. The spec gives them as: the base is the address rounded
  down to the nearest word boundary, and the offset is the address minus the base.
\<close>

definition base_of :: "'w::len itself \<Rightarrow> addr \<Rightarrow> addr" where
  "base_of t a = a - a mod sizeof_ptr t"

definition offset_of :: "'w::len itself \<Rightarrow> addr \<Rightarrow> nat" where
  "offset_of t a = a mod sizeof_ptr t"

section \<open>The transactional primitives\<close>

text \<open>
  The STM algorithm behind \<open>tx.tmread\<close> and \<open>tx.tmwrite\<close> is external. The model
  keeps, per transaction descriptor, the word the algorithm returns for a masked read of
  an address, and the sequence of primitive calls issued so far, oldest first.
\<close>

datatype 'word access =
    TMRead addr 'word
  | TMReadRO addr 'word
  | TMWrite addr 'word 'word

fun access_addr :: "'word access \<Rightarrow> addr" where
  "access_addr (TMRead a m) = a"
| "access_addr (TMReadRO a m) = a"
| "access_addr (TMWrite a v m) = a"

fun access_mask :: "'word access \<Rightarrow> 'word" where
  "access_mask (TMRead a m) = m"
| "access_mask (TMReadRO a m) = m"
| "access_mask (TMWrite a v m) = m"

record 'word TxThread =
  tmread_result :: "addr \<Rightarrow> 'word \<Rightarrow> 'word"
  calls :: "'word access list"

definition tmread :: "'w::len word TxThread \<Rightarrow> addr \<Rightarrow> 'w word \<Rightarrow> 'w word \<times> 'w word TxThread" where
  "tmread tx a m = (tmread_result tx a m, tx\<lparr>calls := calls tx @ [TMRead a m]\<rparr>)"

definition tmwrite :: "'w::len word TxThread \<Rightarrow> addr \<Rightarrow> 'w word \<Rightarrow> 'w word \<Rightarrow> 'w word TxThread" where
  "tmwrite tx a v m = tx\<lparr>calls := calls tx @ [TMWrite a v m]\<rparr>"

section \<open>The barriers of libitm-5.12.cpp\<close>

text \<open>
  \<open>for (size_t i = i0; i < N; ++i) cast.from[i] = tx.tmread(&tx, base + i, mask);\<close>
  the loop of \<open>ReadUnaligned\<close> (from 1) and of the aligned \<open>Read\<close> (from 0).
\<close>

function read_loop ::
  "'w::len word TxThread \<Rightarrow> addr \<Rightarrow> 'w word \<Rightarrow> nat \<Rightarrow> nat \<Rightarrow> 'w word list
     \<Rightarrow> 'w word list \<times> 'w word TxThread" where
  "read_loop tx base m N i cast_from =
     (if i < N then
        (case tmread tx (base + i * sizeof_ptr TYPE('w)) m of
           (w, tx') \<Rightarrow> read_loop tx' base m N (Suc i) (cast_from[i := w]))
      else (cast_from, tx))"
  by pat_completeness auto
termination
  by (relation "measure (\<lambda>(tx, base, m, N, i, cast_from). N - i)") auto

declare read_loop.simps [simp del]

text \<open>
  \<open>for (size_t i = i0; i < N; ++i) tx.tmwrite(&tx, base + i, cast.to[i], mask);\<close>
\<close>

function write_loop ::
  "'w::len word TxThread \<Rightarrow> addr \<Rightarrow> 'w word \<Rightarrow> nat \<Rightarrow> nat \<Rightarrow> 'w word list \<Rightarrow> 'w word TxThread" where
  "write_loop tx base m N i cast_to =
     (if i < N then
        write_loop (tmwrite tx (base + i * sizeof_ptr TYPE('w)) (cast_to ! i) m)
          base m N (Suc i) cast_to
      else tx)"
  by pat_completeness auto
termination
  by (relation "measure (\<lambda>(tx, base, m, N, i, cast_to). N - i)") auto

declare write_loop.simps [simp del]

text \<open>
  \<open>INST<T, N, false>::ReadUnaligned\<close>. The union \<open>cast\<close> has \<open>N + 1\<close> words and is
  not initialised; each of its words is assigned before its bytes are read, so the
  zeros it starts with here never reach the result.
\<close>

definition ReadUnaligned ::
  "nat \<Rightarrow> nat \<Rightarrow> 'w::len word TxThread \<Rightarrow> addr \<Rightarrow> nat \<Rightarrow> (error + byte list) \<times> 'w word TxThread" where
  "ReadUnaligned N sz tx addr offset =
     (let cast_from = replicate (N + 1) (0 :: 'w word);
          base = base_of TYPE('w) addr;
          mask = make_mask offset (sizeof_ptr TYPE('w));
          (w, tx) = tmread tx base mask;
          cast_from = cast_from[0 := w];
          mask = make_mask 0 (sizeof_ptr TYPE('w));
          (cast_from, tx) = read_loop tx base mask N 1 cast_from;
          mask = make_mask 0 offset;
          (w, tx) = tmread tx (base + N * sizeof_ptr TYPE('w)) mask;
          cast_from = cast_from[N := w]
      in (load_T (bytes_of_words cast_from) offset sz, tx))"

text \<open>\<open>INST<T, N, false>::WriteUnaligned\<close>; \<open>cast = {{0}}\<close> zeroes the union.\<close>

definition WriteUnaligned ::
  "nat \<Rightarrow> 'w::len word TxThread \<Rightarrow> addr \<Rightarrow> byte list \<Rightarrow> nat \<Rightarrow> error + 'w word TxThread" where
  "WriteUnaligned N tx addr val offset =
     (case store_T (bytes_of_words (replicate (N + 1) (0 :: 'w word))) offset val of
        Inl e \<Rightarrow> Inl e
      | Inr cast_bytes \<Rightarrow>
          (let cast_to = words_of_bytes cast_bytes :: 'w word list;
               base = base_of TYPE('w) addr;
               mask = make_mask offset (sizeof_ptr TYPE('w));
               tx = tmwrite tx base (cast_to ! 0) mask;
               mask = make_mask 0 (sizeof_ptr TYPE('w));
               tx = write_loop tx base mask N 1 cast_to;
               mask = make_mask 0 offset;
               tx = tmwrite tx (base + N * sizeof_ptr TYPE('w)) (cast_to ! N) mask
           in Inr tx))"

text \<open>
  \<open>INST<T, N, true>::Read\<close>: the union is \<open>{ void* from[N]; T to; }\<close>, and the
  address is used as it is. Bytes of \<open>to\<close> beyond the \<open>N\<close> words are never assigned.
\<close>

definition INST_N_true_Read ::
  "nat \<Rightarrow> nat \<Rightarrow> 'w::len word TxThread \<Rightarrow> addr \<Rightarrow> (error + byte list) \<times> 'w word TxThread" where
  "INST_N_true_Read N sz tx addr =
     (let cast_from = replicate N (0 :: 'w word);
          address = addr;
          mask = make_mask 0 (sizeof_ptr TYPE('w));
          (cast_from, tx) = read_loop tx address mask N 0 cast_from
      in (if sz \<le> N * sizeof_ptr TYPE('w) then load_T (bytes_of_words cast_from) 0 sz
          else Inl Indeterminate, tx))"

text \<open>
  \<open>INST<T, N, true>::Write\<close>: the union is \<open>{ T from; void* to[N]; }\<close>, initialised
  with the value; words of \<open>to\<close> beyond the value are never assigned.
\<close>

definition INST_N_true_Write ::
  "nat \<Rightarrow> 'w::len word TxThread \<Rightarrow> addr \<Rightarrow> byte list \<Rightarrow> error + 'w word TxThread" where
  "INST_N_true_Write N tx addr val =
     (if N * sizeof_ptr TYPE('w) \<le> length val then
        (let cast_to = words_of_bytes val :: 'w word list;
             address = addr;
             mask = make_mask 0 (sizeof_ptr TYPE('w))
         in Inr (write_loop tx address mask N 0 cast_to))
      else Inl Indeterminate)"

text \<open>\<open>INST<T, N, false>::Read\<close> and \<open>Write\<close>: the alignment check at run time.\<close>

definition INST_N_false_Read ::
  "nat \<Rightarrow> nat \<Rightarrow> 'w::len word TxThread \<Rightarrow> addr \<Rightarrow> (error + byte list) \<times> 'w word TxThread" where
  "INST_N_false_Read N sz tx addr =
     (let offset = offset_of TYPE('w) addr
      in if offset = 0 then INST_N_true_Read N sz tx addr
         else ReadUnaligned N sz tx addr offset)"

definition INST_N_false_Write ::
  "nat \<Rightarrow> 'w::len word TxThread \<Rightarrow> addr \<Rightarrow> byte list \<Rightarrow> error + 'w word TxThread" where
  "INST_N_false_Write N tx addr val =
     (let offset = offset_of TYPE('w) addr
      in if offset = 0 then INST_N_true_Write N tx addr val
         else WriteUnaligned N tx addr val offset)"

text \<open>\<open>INST<T, 0u, true>\<close>: subword accesses that stay inside one word.\<close>

definition INST_0_true_Read ::
  "nat \<Rightarrow> 'w::len word TxThread \<Rightarrow> addr \<Rightarrow> (error + byte list) \<times> 'w word TxThread" where
  "INST_0_true_Read sz tx addr =
     (let offset = offset_of TYPE('w) addr;
          mask = make_mask offset (offset + sz);
          (cast_from, tx) = tmread tx (base_of TYPE('w) addr) mask
      in (load_T (bytes_of_word cast_from) offset sz, tx))"

definition INST_0_true_Write ::
  "'w::len word TxThread \<Rightarrow> addr \<Rightarrow> byte list \<Rightarrow> error + 'w word TxThread" where
  "INST_0_true_Write tx addr val =
     (let offset = offset_of TYPE('w) addr
      in case store_T (bytes_of_word (0 :: 'w word)) offset val of
           Inl e \<Rightarrow> Inl e
         | Inr cast_from \<Rightarrow>
             (let cast_to = word_of_bytes cast_from :: 'w word;
                  base = base_of TYPE('w) addr;
                  mask = make_mask offset (offset + length val)
              in Inr (tmwrite tx base cast_to mask)))"

text \<open>\<open>INST<T, 0u, false>\<close>: subword accesses that may overflow into the next word.\<close>

definition INST_0_false_Read ::
  "nat \<Rightarrow> 'w::len word TxThread \<Rightarrow> addr \<Rightarrow> (error + byte list) \<times> 'w word TxThread" where
  "INST_0_false_Read sz tx addr =
     (let offset = offset_of TYPE('w) addr
      in if offset + sz \<le> sizeof_ptr TYPE('w) then INST_0_true_Read sz tx addr
         else ReadUnaligned 1 sz tx addr offset)"

definition INST_0_false_Write ::
  "'w::len word TxThread \<Rightarrow> addr \<Rightarrow> byte list \<Rightarrow> error + 'w word TxThread" where
  "INST_0_false_Write tx addr val =
     (let offset = offset_of TYPE('w) addr
      in if offset + length val \<le> sizeof_ptr TYPE('w) then INST_0_true_Write tx addr val
         else WriteUnaligned 1 tx addr val offset)"

text \<open>
  \<open>INST<T>\<close> with its default arguments: \<open>N = sizeof(T) / sizeof(void*)\<close>, and
  \<open>A = Aligned<T>::value\<close> from the architecture's \<open>TypeAlignments.h\<close>, which is not
  among the sources and is the parameter \<open>A\<close>. The specialisations for \<open>N = 0\<close> are the
  more specialised ones and win.
\<close>

definition INST_Read ::
  "bool \<Rightarrow> nat \<Rightarrow> 'w::len word TxThread \<Rightarrow> addr \<Rightarrow> (error + byte list) \<times> 'w word TxThread" where
  "INST_Read A sz tx addr =
     (let N = sz div sizeof_ptr TYPE('w)
      in if N = 0 then (if A then INST_0_true_Read sz tx addr else INST_0_false_Read sz tx addr)
         else (if A then INST_N_true_Read N sz tx addr else INST_N_false_Read N sz tx addr))"

definition INST_Write ::
  "bool \<Rightarrow> 'w::len word TxThread \<Rightarrow> addr \<Rightarrow> byte list \<Rightarrow> error + 'w word TxThread" where
  "INST_Write A tx addr val =
     (let N = length val div sizeof_ptr TYPE('w)
      in if N = 0 then (if A then INST_0_true_Write tx addr val else INST_0_false_Write tx addr val)
         else (if A then INST_N_true_Write N tx addr val else INST_N_false_Write N tx addr val))"

section \<open>Plain memory and the stack filter of libitm-5.12.cpp\<close>

type_synonym memory = "addr \<Rightarrow> byte"

definition load_mem :: "memory \<Rightarrow> addr \<Rightarrow> nat \<Rightarrow> byte list" where
  "load_mem mem a sz = map (\<lambda>k. mem (a + k)) [0..<sz]"

definition store_mem :: "memory \<Rightarrow> addr \<Rightarrow> byte list \<Rightarrow> memory" where
  "store_mem mem a val = (\<lambda>x. if a \<le> x \<and> x < a + length val then val ! (x - a) else mem x)"

text \<open>
  The descriptor \<open>_ITM_transaction\<close>, as far as the barriers use it: the stack-high
  marks of its inner and outer scopes, the undo log of the inner scope (oldest entry
  first, each entry an address with the bytes saved from it), and the \<open>TxThread\<close> that
  \<open>handle()\<close> returns.
\<close>

record 'word ITM_transaction =
  inner_stackHigh :: addr
  outer_stackHigh :: addr
  inner_log :: "(addr \<times> byte list) list"
  handle :: "'word TxThread"

text \<open>
  Modelled from the spec: \<open>Scope::log\<close> is declared in a header that is not among the
  sources. The spec gives it as: append the current value at the address to the undo log
  of the active nested scope.
\<close>

definition Scope_log ::
  "'word ITM_transaction \<Rightarrow> memory \<Rightarrow> addr \<Rightarrow> nat \<Rightarrow> 'word ITM_transaction" where
  "Scope_log td mem address sz =
     td\<lparr>inner_log := inner_log td @ [(address, load_mem mem address sz)]\<rparr>"

text \<open>
  \<open>is_stack_write\<close>. \<open>frame\<close> is \<open>__builtin_frame_address(0)\<close> of the barrier that the
  function is inlined into. The result is the returned flag with the descriptor, whose
  inner scope may have logged.
\<close>

definition is_stack_write ::
  "'word ITM_transaction \<Rightarrow> memory \<Rightarrow> addr \<Rightarrow> addr \<Rightarrow> nat \<Rightarrow> bool \<times> 'word ITM_transaction" where
  "is_stack_write tx mem frame address sz =
     (let begin = address
      in if begin < frame then (False, tx)
         else if begin > outer_stackHigh tx then (False, tx)
         else if begin < inner_stackHigh tx then (True, tx)
         else (True, Scope_log tx mem address sz))"

text \<open>
  The barriers that the macro \<open>BARRIERS(TYPE, EXT)\<close> generates, for a type of
  \<open>sizeof(TYPE) = sz\<close> bytes. A write barrier returns the descriptor and the memory.
\<close>

definition ITM_R ::
  "bool \<Rightarrow> nat \<Rightarrow> 'w::len word ITM_transaction \<Rightarrow> addr
     \<Rightarrow> (error + byte list) \<times> 'w word ITM_transaction" where
  "ITM_R A sz td address =
     (case INST_Read A sz (handle td) address of (r, tx) \<Rightarrow> (r, td\<lparr>handle := tx\<rparr>))"

definition ITM_RaR ::
  "bool \<Rightarrow> nat \<Rightarrow> 'w::len word ITM_transaction \<Rightarrow> addr
     \<Rightarrow> (error + byte list) \<times> 'w word ITM_transaction" where
  "ITM_RaR A sz td address =
     (case INST_Read A sz (handle td) address of (r, tx) \<Rightarrow> (r, td\<lparr>handle := tx\<rparr>))"

definition ITM_RaW ::
  "bool \<Rightarrow> nat \<Rightarrow> 'w::len word ITM_transaction \<Rightarrow> addr
     \<Rightarrow> (error + byte list) \<times> 'w word ITM_transaction" where
  "ITM_RaW A sz td address =
     (case INST_Read A sz (handle td) address of (r, tx) \<Rightarrow> (r, td\<lparr>handle := tx\<rparr>))"

definition ITM_RfW ::
  "bool \<Rightarrow> nat \<Rightarrow> 'w::len word ITM_transaction \<Rightarrow> addr
     \<Rightarrow> (error + byte list) \<times> 'w word ITM_transaction" where
  "ITM_RfW A sz td address =
     (case INST_Read A sz (handle td) address of (r, tx) \<Rightarrow> (r, td\<lparr>handle := tx\<rparr>))"

definition ITM_W ::
  "bool \<Rightarrow> 'w::len word ITM_transaction \<Rightarrow> memory \<Rightarrow> addr \<Rightarrow> addr \<Rightarrow> byte list
     \<Rightarrow> error + 'w word ITM_transaction \<times> memory" where
  "ITM_W A td mem frame address val =
     (case is_stack_write td mem frame address (length val) of
        (True, td) \<Rightarrow> Inr (td, store_mem mem address val)
      | (False, td) \<Rightarrow>
          (case INST_Write A (handle td) address val of
             Inl e \<Rightarrow> Inl e
           | Inr tx \<Rightarrow> Inr (td\<lparr>handle := tx\<rparr>, mem)))"

definition ITM_WaR ::
  "bool \<Rightarrow> 'w::len word ITM_transaction \<Rightarrow> memory \<Rightarrow> addr \<Rightarrow> addr \<Rightarrow> byte list
     \<Rightarrow> error + 'w word ITM_transaction \<times> memory" where
  "ITM_WaR A td mem frame address val =
     (case is_stack_write td mem frame address (length val) of
        (True, td) \<Rightarrow> Inr (td, store_mem mem address val)
      | (False, td) \<Rightarrow>
          (case INST_Write A (handle td) address val of
             Inl e \<Rightarrow> Inl e
           | Inr tx \<Rightarrow> Inr (td\<lparr>handle := tx\<rparr>, mem)))"

definition ITM_WaW ::
  "bool \<Rightarrow> 'w::len word ITM_transaction \<Rightarrow> memory \<Rightarrow> addr \<Rightarrow> addr \<Rightarrow> byte list
     \<Rightarrow> error + 'w word ITM_transaction \<times> memory" where
  "ITM_WaW A td mem frame address val =
     (case is_stack_write td mem frame address (length val) of
        (True, td) \<Rightarrow> Inr (td, store_mem mem address val)
      | (False, td) \<Rightarrow>
          (case INST_Write A (handle td) address val of
             Inl e \<Rightarrow> Inl e
           | Inr tx \<Rightarrow> Inr (td\<lparr>handle := tx\<rparr>, mem)))"

section \<open>The generic instrumentation of inst.hpp\<close>

text \<open>
  The descriptor \<open>stm::TX\<close>, as far as the instrumentation uses it: the words that
  \<open>alg_tm_read_aligned_word\<close> and its read-only variant return, and the sequence of
  primitive calls issued so far, oldest first.
\<close>

record 'word TX =
  alg_tm_read_aligned_word :: "addr \<Rightarrow> 'word \<Rightarrow> 'word"
  alg_tm_read_aligned_word_ro :: "addr \<Rightarrow> 'word \<Rightarrow> 'word"
  accesses :: "'word access list"

definition ReadAlignedWord_Read :: "'word TX \<Rightarrow> addr \<Rightarrow> 'word \<Rightarrow> 'word \<times> 'word TX" where
  "ReadAlignedWord_Read tx a m =
     (alg_tm_read_aligned_word tx a m, tx\<lparr>accesses := accesses tx @ [TMRead a m]\<rparr>)"

definition ReadAlignedWordRO_Read :: "'word TX \<Rightarrow> addr \<Rightarrow> 'word \<Rightarrow> 'word \<times> 'word TX" where
  "ReadAlignedWordRO_Read tx a m =
     (alg_tm_read_aligned_word_ro tx a m, tx\<lparr>accesses := accesses tx @ [TMReadRO a m]\<rparr>)"

text \<open>
  The \<open>WRITE\<close> functor of \<open>write\<close> is the transactional masked write; \<open>BufferedWrite\<close>
  inserts into the write set of the descriptor, which is external.
\<close>

definition WRITE :: "'word TX \<Rightarrow> addr \<Rightarrow> 'word \<Rightarrow> 'word \<Rightarrow> 'word TX" where
  "WRITE tx a v m = tx\<lparr>accesses := accesses tx @ [TMWrite a v m]\<rparr>"

text \<open>
  The read-after-write policy \<open>RAW\<close> is a template parameter whose implementations are in
  \<open>inst-raw.hpp\<close>, which is not among the sources. \<open>hit\<close> takes the address, the
  storage word and the mask, and returns whether it hit together with the storage word,
  which it receives by reference; \<open>merge\<close> takes the word read and the storage word and
  returns the storage word.
\<close>

record 'word RAW =
  hit :: "addr \<Rightarrow> 'word \<Rightarrow> 'word \<Rightarrow> bool \<times> 'word"
  merge :: "'word \<Rightarrow> 'word \<Rightarrow> 'word"

text \<open>
  Modelled from the spec: \<open>NoRAW\<close> is declared in \<open>inst-raw.hpp\<close>. The spec gives it
  as the no-op variant for read-only execution: nothing is buffered, so it never hits,
  and merging a freshly read word leaves that word in the buffer.
\<close>

definition NoRAW :: "'word RAW" where
  "NoRAW = \<lparr>hit = (\<lambda>a storage m. (False, storage)), merge = (\<lambda>val storage. val)\<rparr>"

text \<open>
  Modelled from the spec: \<open>Base<T, ALIGNED>::BaseOf\<close> and
  \<open>Offset<T, ALIGNED>::OffsetOf\<close> are declared in \<open>inst-baseof.hpp\<close> and
  \<open>inst-offsetof.hpp\<close>, which are not among the sources. The spec gives them as: the
  base is the address rounded down to the nearest word boundary, and the offset is the
  address minus the base.
\<close>

definition BaseOf :: "'w::len itself \<Rightarrow> addr \<Rightarrow> addr" where
  "BaseOf t a = a - a mod sizeof_ptr t"

definition OffsetOf :: "'w::len itself \<Rightarrow> addr \<Rightarrow> nat" where
  "OffsetOf t a = a mod sizeof_ptr t"

text \<open>
  One step of \<open>read_words\<close>:
  \<open>if (!raw.hit(a, words[ih], tx, mask)) raw.merge(READ::Read(a, tx, mask), words[im]);\<close>
  on an array \<open>words\<close> whose length is its declared size. The source writes the step
  three times: for the first word (\<open>ih = im = 0\<close>), for a middle word (\<open>ih = im = i\<close>),
  and for the last word, where it passes \<open>words[N - 1]\<close> to \<open>hit\<close> and \<open>words[N]\<close>
  to \<open>merge\<close>.
\<close>

definition read_word ::
  "'word RAW \<Rightarrow> ('word TX \<Rightarrow> addr \<Rightarrow> 'word \<Rightarrow> 'word \<times> 'word TX) \<Rightarrow> 'word TX \<Rightarrow> 'word list
     \<Rightarrow> addr \<Rightarrow> nat \<Rightarrow> nat \<Rightarrow> 'word \<Rightarrow> (error + 'word list) \<times> 'word TX" where
  "read_word raw READ tx words a ih im m =
     (if ih < length words then
        (case hit raw a (words ! ih) m of
           (h, storage) \<Rightarrow>
             (let words = words[ih := storage]
              in if h then (Inr words, tx)
                 else (case READ tx a m of
                         (val, tx) \<Rightarrow>
                           if im < length words
                           then (Inr (words[im := merge raw val (words ! im)]), tx)
                           else (Inl OutOfBounds, tx))))
      else (Inl OutOfBounds, tx))"

text \<open>
  \<open>for (int i = 1, e = N - 1; i < e; ++i)\<close> of \<open>read_words\<close>. For \<open>N = 0\<close> the
  source's \<open>e\<close> is \<open>-1\<close> and here \<open>0\<close>; the loop does not run in either.
\<close>

function read_words_middle ::
  "'w::len word RAW \<Rightarrow> ('w word TX \<Rightarrow> addr \<Rightarrow> 'w word \<Rightarrow> 'w word \<times> 'w word TX) \<Rightarrow> 'w word TX
     \<Rightarrow> 'w word list \<Rightarrow> addr \<Rightarrow> 'w word \<Rightarrow> nat \<Rightarrow> nat \<Rightarrow> (error + 'w word list) \<times> 'w word TX" where
  "read_words_middle raw READ tx words base m e i =
     (if i < e then
        (case read_word raw READ tx words (base + i * sizeof_ptr TYPE('w)) i i m of
           (Inl err, tx') \<Rightarrow> (Inl err, tx')
         | (Inr words', tx') \<Rightarrow> read_words_middle raw READ tx' words' base m e (Suc i))
      else (Inr words, tx))"
  by pat_completeness auto
termination
  by (relation "measure (\<lambda>(raw, READ, tx, words, base, m, e, i). e - i)") auto

declare read_words_middle.simps [simp del]

text \<open>\<open>read_words<T, RAW, READ, N>\<close>, with \<open>sz = sizeof(T)\<close>.\<close>

definition read_words ::
  "nat \<Rightarrow> 'w::len word RAW \<Rightarrow> ('w word TX \<Rightarrow> addr \<Rightarrow> 'w word \<Rightarrow> 'w word \<times> 'w word TX) \<Rightarrow> nat
     \<Rightarrow> 'w word TX \<Rightarrow> 'w word list \<Rightarrow> addr \<Rightarrow> nat \<Rightarrow> (error + 'w word list) \<times> 'w word TX" where
  "read_words sz raw READ N tx words base off =
     (let mask = make_mask off (min_size (sizeof_ptr TYPE('w)) (off + sz))
      in case read_word raw READ tx words base 0 0 mask of
           (Inl err, tx) \<Rightarrow> (Inl err, tx)
         | (Inr words, tx) \<Rightarrow>
             (let mask = make_mask 0 (sizeof_ptr TYPE('w))
              in case read_words_middle raw READ tx words base mask (N - 1) 1 of
                   (Inl err, tx) \<Rightarrow> (Inl err, tx)
                 | (Inr words, tx) \<Rightarrow>
                     if N > 1 \<and> off \<noteq> 0 then
                       (let mask = make_mask 0 off
                        in read_word raw READ tx words (base + N * sizeof_ptr TYPE('w))
                             (N - 1) N mask)
                     else (Inr words, tx)))"

text \<open>
  \<open>read<T, PREFILTER, RAW, READ_ONLY, FORCE_ALIGNED>\<close>. The template arguments that
  are not among the sources are parameters: \<open>prefilter\<close> is \<open>PREFILTER::filter\<close>,
  \<open>read_only\<close> is what \<open>READ_ONLY::IsReadOnly\<close> returns, and the union \<open>words\<close>,
  which the source does not initialise, is passed with the contents it happens to have;
  its length is \<open>N = Buffer<T, ALIGNED>::Words\<close>.
\<close>

definition inst_read ::
  "nat \<Rightarrow> (addr \<Rightarrow> bool) \<Rightarrow> 'w::len word RAW \<Rightarrow> bool \<Rightarrow> 'w word TX \<Rightarrow> memory \<Rightarrow> 'w word list
     \<Rightarrow> addr \<Rightarrow> (error + byte list) \<times> 'w word TX" where
  "inst_read sz prefilter raw read_only tx mem words addr =
     (if prefilter addr then (Inr (load_mem mem addr sz), tx)
      else
        (let base = BaseOf TYPE('w) addr;
             off = OffsetOf TYPE('w) addr;
             N = length words
         in case (if read_only
                  then read_words sz NoRAW ReadAlignedWordRO_Read N tx words base off
                  else read_words sz raw ReadAlignedWord_Read N tx words base off) of
              (Inl err, tx) \<Rightarrow> (Inl err, tx)
            | (Inr words, tx) \<Rightarrow> (load_T (bytes_of_words words) off sz, tx)))"

text \<open>\<open>for (int i = 1, e = N - 1; i < e; ++i) write(base + i, words[i], tx, mask);\<close>\<close>

function write_middle ::
  "'w::len word TX \<Rightarrow> addr \<Rightarrow> 'w word \<Rightarrow> nat \<Rightarrow> nat \<Rightarrow> 'w word list \<Rightarrow> 'w word TX" where
  "write_middle tx base m e i words =
     (if i < e then
        write_middle (WRITE tx (base + i * sizeof_ptr TYPE('w)) (words ! i) m) base m e (Suc i) words
      else tx)"
  by pat_completeness auto
termination
  by (relation "measure (\<lambda>(tx, base, m, e, i, words). e - i)") auto

declare write_middle.simps [simp del]

text \<open>
  \<open>write<T, PREFILTER, WRITE, FORCE_ALIGNED>\<close>, with the same parameters. The value is
  put into the uninitialised union first; the result is the descriptor and the memory.
\<close>

definition inst_write ::
  "(addr \<Rightarrow> bool) \<Rightarrow> 'w::len word TX \<Rightarrow> memory \<Rightarrow> 'w word list \<Rightarrow> addr \<Rightarrow> byte list
     \<Rightarrow> error + 'w word TX \<times> memory" where
  "inst_write prefilter tx mem words addr val =
     (if prefilter addr then Inr (tx, store_mem mem addr val)
      else
        (let base = BaseOf TYPE('w) addr;
             off = OffsetOf TYPE('w) addr;
             N = length words
         in case store_T (bytes_of_words words) off val of
              Inl err \<Rightarrow> Inl err
            | Inr bytes \<Rightarrow>
                if N = 0 then Inl OutOfBounds
                else
                  (let words = words_of_bytes bytes :: 'w word list;
                       mask = make_mask off (min_size (sizeof_ptr TYPE('w)) (off + length val));
                       tx = WRITE tx base (words ! 0) mask;
                       mask = make_mask 0 (sizeof_ptr TYPE('w));
                       tx = write_middle tx base mask (N - 1) 1 words
                   in if N > 1 \<and> off \<noteq> 0 then
                        (let mask = make_mask 0 off
                         in Inr (WRITE tx (base + N * sizeof_ptr TYPE('w)) (words ! (N - 1)) mask, mem))
                      else Inr (tx, mem))))"

section \<open>A reference memory for the transactional primitives\<close>

text \<open>
  Modelled from the spec: the STM algorithm is external. The spec gives its two
  primitives as the transactional write of one word, masked to the given byte range, and
  the transactional read of one word, masked to the given byte range. The reference
  memory applies a masked write to the bytes that the mask selects and leaves the others;
  a read returns the word stored at the address.
\<close>

definition load_word :: "memory \<Rightarrow> addr \<Rightarrow> 'w::len word" where
  "load_word mem a = word_of_bytes (load_mem mem a (sizeof_ptr TYPE('w)))"

definition masked_write :: "memory \<Rightarrow> addr \<Rightarrow> 'w::len word \<Rightarrow> 'w word \<Rightarrow> memory" where
  "masked_write mem a v m =
     store_mem mem a (bytes_of_word ((load_word mem a AND NOT m) OR (v AND m)))"

fun apply_access :: "memory \<Rightarrow> 'w::len word access \<Rightarrow> memory" where
  "apply_access mem (TMRead a m) = mem"
| "apply_access mem (TMReadRO a m) = mem"
| "apply_access mem (TMWrite a v m) = masked_write mem a v m"

definition replay :: "memory \<Rightarrow> 'w::len word access list \<Rightarrow> memory" where
  "replay mem cs = foldl apply_access mem cs"

section \<open>A write followed by a read\<close>

text \<open>
  What a read primitive returns after the writes, as the round-trip law supposes it: in
  the bytes that the mask selects, the bytes last stored; in the other bytes anything
  (\<open>junk\<close>).
\<close>

definition readback :: "memory \<Rightarrow> (addr \<Rightarrow> 'w::len word \<Rightarrow> 'w word) \<Rightarrow> addr \<Rightarrow> 'w word \<Rightarrow> 'w word" where
  "readback mem junk a m = (load_word mem a AND m) OR (junk a m AND NOT m)"

text \<open>
  The write barrier of \<open>libitm-5.12.cpp\<close> followed by its read barrier at the same
  address, the read primitive answering from the reference memory after the calls of the
  descriptor.
\<close>

definition INST_write_then_read ::
  "bool \<Rightarrow> 'w::len word TxThread \<Rightarrow> memory \<Rightarrow> (addr \<Rightarrow> 'w word \<Rightarrow> 'w word) \<Rightarrow> addr \<Rightarrow> byte list
     \<Rightarrow> error + byte list" where
  "INST_write_then_read A tx mem junk addr val =
     (case INST_Write A tx addr val of
        Inl e \<Rightarrow> Inl e
      | Inr tx' \<Rightarrow>
          fst (INST_Read A (length val)
                 (tx'\<lparr>tmread_result := readback (replay mem (calls tx')) junk\<rparr>) addr))"

text \<open>
  \<open>write\<close> of \<open>inst.hpp\<close> followed by \<open>read\<close> at the same address, likewise;
  \<open>words\<close> and \<open>words'\<close> are the uninitialised buffers of the two calls.
\<close>

definition inst_write_then_read ::
  "(addr \<Rightarrow> bool) \<Rightarrow> 'w::len word RAW \<Rightarrow> 'w word TX \<Rightarrow> memory \<Rightarrow> (addr \<Rightarrow> 'w word \<Rightarrow> 'w word)
     \<Rightarrow> 'w word list \<Rightarrow> 'w word list \<Rightarrow> addr \<Rightarrow> byte list \<Rightarrow> error + byte list" where
  "inst_write_then_read prefilter raw tx mem junk words words' addr val =
     (case inst_write prefilter tx mem words addr val of
        Inl e \<Rightarrow> Inl e
      | Inr (tx', mem') \<Rightarrow>
          fst (inst_read (length val) prefilter raw False
                 (tx'\<lparr>alg_tm_read_aligned_word := readback (replay mem' (accesses tx')) junk\<rparr>)
                 mem' words' addr))"

section \<open>The masks of an unaligned access, by word index\<close>

text \<open>
  The mask that \<open>ReadUnaligned\<close> and \<open>WriteUnaligned\<close> pass for word \<open>k\<close> of the
  \<open>N + 1\<close> words: used to state their loops in closed form.
\<close>

definition unaligned_mask :: "nat \<Rightarrow> nat \<Rightarrow> nat \<Rightarrow> 'w::len word" where
  "unaligned_mask N offset k =
     (if k = 0 then make_mask offset (sizeof_ptr TYPE('w))
      else if k < N then make_mask 0 (sizeof_ptr TYPE('w))
      else make_mask 0 offset)"

section \<open>Properties of the mask\<close>

lemma bit_make_mask:
  assumes "8 dvd LENGTH('w::len)" "i < j" "j \<le> sizeof_ptr TYPE('w)"
  shows "bit (make_mask i j :: 'w word) n \<longleftrightarrow> 8 * i \<le> n \<and> n < 8 * j"
proof -
  obtain W where W: "LENGTH('w) = 8 * W"
    using assms(1) by (auto elim: dvdE)
  have sz: "sizeof_ptr TYPE('w) = W"
    by (simp add: sizeof_ptr_def W)
  show ?thesis
    using assms(2,3) unfolding make_mask_def Let_def sz
    by (auto simp add: bit_simps W)
qed

lemma bit_byte_of: "bit (byte_of w k) m \<longleftrightarrow> m < 8 \<and> bit w (8 * k + m)"
  by (auto simp add: byte_of_def bit_simps ac_simps)

lemma byte_of_make_mask:
  assumes "8 dvd LENGTH('w::len)" "i < j" "j \<le> sizeof_ptr TYPE('w)"
  shows "byte_of (make_mask i j :: 'w word) k = (if i \<le> k \<and> k < j then 0xFF else 0x00)"
proof (rule bit_word_eqI)
  fix m
  assume "m < LENGTH(8)"
  then have m: "m < 8" by simp
  have ff: "(0xFF :: byte) = - 1" by simp
  show "bit (byte_of (make_mask i j :: 'w word) k) m
      = bit (if i \<le> k \<and> k < j then 0xFF else (0x00 :: byte)) m"
    using m by (auto simp add: bit_byte_of bit_make_mask [OF assms] ff)
qed

text \<open>
  Claim C2. For all \<open>i\<close> and \<open>j\<close> with \<open>0 \<le> i < j \<le> sizeof(void*)\<close> and every byte
  index \<open>k\<close> of the word, byte \<open>k\<close> of \<open>make_mask i j\<close> is \<open>0xFF\<close> if \<open>i \<le> k < j\<close>
  and \<open>0x00\<close> otherwise: the bytes in \<open>[i, j)\<close> are all ones, the others are zero.
  The word is any whole number of bytes wide.
\<close>

theorem make_mask_bytes:
  assumes "8 dvd LENGTH('w::len)" and "i < j" and "j \<le> sizeof_ptr TYPE('w)"
    and "k < sizeof_ptr TYPE('w)"
  shows "byte_of (make_mask i j :: 'w word) k = (if i \<le> k \<and> k < j then 0xFF else 0x00)
       \<and> (byte_of (make_mask i j :: 'w word) k = 0xFF \<longleftrightarrow> i \<le> k \<and> k < j)"
  using assms(1-3) by (simp add: byte_of_make_mask)

theorem make_mask_bytes_witness:
  "8 dvd LENGTH(64) \<and> (4::nat) < 8 \<and> 8 \<le> sizeof_ptr TYPE(64) \<and> 5 < sizeof_ptr TYPE(64)
   \<and> byte_of (make_mask 4 8 :: 64 word) 5 = 0xFF"
  using make_mask_bytes [where 'w = 64 and i = 4 and j = 8 and k = 5]
  by (simp add: sizeof_ptr_def)

section \<open>The stack filter: the decision and its effects\<close>

lemma is_stack_write_eq:
  "is_stack_write td mem frame address sz =
     (if address < frame then (False, td)
      else if outer_stackHigh td < address then (False, td)
      else if address < inner_stackHigh td then (True, td)
      else (True, td\<lparr>inner_log := inner_log td @ [(address, load_mem mem address sz)]\<rparr>))"
  by (simp add: is_stack_write_def Scope_log_def Let_def)

lemma ITM_W_eq:
  "ITM_W A td mem frame address val =
     (if address < frame \<or> outer_stackHigh td < address then
        (case INST_Write A (handle td) address val of
           Inl e \<Rightarrow> Inl e
         | Inr tx \<Rightarrow> Inr (td\<lparr>handle := tx\<rparr>, mem))
      else if address < inner_stackHigh td then Inr (td, store_mem mem address val)
      else Inr (td\<lparr>inner_log := inner_log td @ [(address, load_mem mem address (length val))]\<rparr>,
                store_mem mem address val))"
  by (simp add: ITM_W_def is_stack_write_eq)

lemma load_store_mem: "load_mem (store_mem mem a val) a (length val) = val"
  by (rule nth_equalityI) (simp_all add: load_mem_def store_mem_def)

lemma store_mem_undo: "store_mem (store_mem mem a val) a (load_mem mem a (length val)) = mem"
  by (rule ext) (auto simp add: load_mem_def store_mem_def)

lemma ITM_WaR_eq: "ITM_WaR A td mem frame address val = ITM_W A td mem frame address val"
  by (simp add: ITM_WaR_def ITM_W_def)

lemma ITM_WaW_eq: "ITM_WaW A td mem frame address val = ITM_W A td mem frame address val"
  by (simp add: ITM_WaW_def ITM_W_def)

text \<open>
  Claim C5. The write barriers run the stack filter as an ordered decision: an address
  below the frame address of the barrier goes to the instrumented write, with memory and
  undo log as they were; otherwise an address above the stack-high mark of the outer
  scope goes to the instrumented write as well; otherwise an address below the
  stack-high mark of the inner scope is stored in place and nothing is logged; otherwise
  the bytes at the address are appended to the undo log of the inner scope and the value
  is stored in place. The three write barriers \<open>_ITM_W\<close>, \<open>_ITM_WaR\<close> and
  \<open>_ITM_WaW\<close> do the same.
\<close>

theorem stack_write_decision:
  "ITM_W A td mem frame address val =
     (if address < frame then
        (case INST_Write A (handle td) address val of
           Inl e \<Rightarrow> Inl e
         | Inr tx \<Rightarrow> Inr (td\<lparr>handle := tx\<rparr>, mem))
      else if outer_stackHigh td < address then
        (case INST_Write A (handle td) address val of
           Inl e \<Rightarrow> Inl e
         | Inr tx \<Rightarrow> Inr (td\<lparr>handle := tx\<rparr>, mem))
      else if address < inner_stackHigh td then Inr (td, store_mem mem address val)
      else Inr (td\<lparr>inner_log := inner_log td @ [(address, load_mem mem address (length val))]\<rparr>,
                store_mem mem address val))
   \<and> ITM_WaR A td mem frame address val = ITM_W A td mem frame address val
   \<and> ITM_WaW A td mem frame address val = ITM_W A td mem frame address val"
proof (intro conjI)
  show "ITM_W A td mem frame address val =
     (if address < frame then
        (case INST_Write A (handle td) address val of
           Inl e \<Rightarrow> Inl e
         | Inr tx \<Rightarrow> Inr (td\<lparr>handle := tx\<rparr>, mem))
      else if outer_stackHigh td < address then
        (case INST_Write A (handle td) address val of
           Inl e \<Rightarrow> Inl e
         | Inr tx \<Rightarrow> Inr (td\<lparr>handle := tx\<rparr>, mem))
      else if address < inner_stackHigh td then Inr (td, store_mem mem address val)
      else Inr (td\<lparr>inner_log := inner_log td @ [(address, load_mem mem address (length val))]\<rparr>,
                store_mem mem address val))"
  proof (cases "address < frame")
    case True
    then have "is_stack_write td mem frame address (length val) = (False, td)"
      by (simp add: is_stack_write_def)
    then show ?thesis using True by (simp add: ITM_W_def)
  next
    case not_below: False
    show ?thesis
    proof (cases "outer_stackHigh td < address")
      case True
      then have "is_stack_write td mem frame address (length val) = (False, td)"
        using not_below by (simp add: is_stack_write_def)
      then show ?thesis using not_below True by (simp add: ITM_W_def)
    next
      case not_above: False
      show ?thesis
      proof (cases "address < inner_stackHigh td")
        case True
        then have "is_stack_write td mem frame address (length val) = (True, td)"
          using not_below not_above by (simp add: is_stack_write_def)
        then show ?thesis using not_below not_above True by (simp add: ITM_W_def)
      next
        case False
        then have "is_stack_write td mem frame address (length val)
            = (True, td\<lparr>inner_log := inner_log td @ [(address, load_mem mem address (length val))]\<rparr>)"
          using not_below not_above by (simp add: is_stack_write_def Scope_log_def)
        then show ?thesis using not_below not_above False by (simp add: ITM_W_def)
      qed
    qed
  qed
next
  show "ITM_WaR A td mem frame address val = ITM_W A td mem frame address val"
    by (rule ITM_WaR_eq)
next
  show "ITM_WaW A td mem frame address val = ITM_W A td mem frame address val"
    by (rule ITM_WaW_eq)
qed

text \<open>
  Two of the four cases on a 64-bit descriptor: a store below the inner mark, and a store
  between the marks, which logs the two bytes it is about to overwrite.
\<close>

theorem stack_write_decision_witness:
  "ITM_W False
     \<lparr>inner_stackHigh = 0x7100, outer_stackHigh = 0x7200, inner_log = [],
      handle = \<lparr>tmread_result = (\<lambda>a m. 0 :: 64 word), calls = []\<rparr>\<rparr>
     (\<lambda>a. 0) 0x7000 0x7080 [1, 2]
   = Inr (\<lparr>inner_stackHigh = 0x7100, outer_stackHigh = 0x7200, inner_log = [],
           handle = \<lparr>tmread_result = (\<lambda>a m. 0 :: 64 word), calls = []\<rparr>\<rparr>,
          store_mem (\<lambda>a. 0) 0x7080 [1, 2])
   \<and> ITM_W False
     \<lparr>inner_stackHigh = 0x7100, outer_stackHigh = 0x7200, inner_log = [],
      handle = \<lparr>tmread_result = (\<lambda>a m. 0 :: 64 word), calls = []\<rparr>\<rparr>
     (\<lambda>a. 0) 0x7000 0x7180 [1, 2]
   = Inr (\<lparr>inner_stackHigh = 0x7100, outer_stackHigh = 0x7200,
           inner_log = [(0x7180, [0, 0])],
           handle = \<lparr>tmread_result = (\<lambda>a m. 0 :: 64 word), calls = []\<rparr>\<rparr>,
          store_mem (\<lambda>a. 0) 0x7180 [1, 2])"
  using stack_write_decision [of False
     "\<lparr>inner_stackHigh = 0x7100, outer_stackHigh = 0x7200, inner_log = [],
      handle = \<lparr>tmread_result = (\<lambda>a m. 0 :: 64 word), calls = []\<rparr>\<rparr>" "\<lambda>a. 0" "0x7000" "0x7080" "[1, 2]"]
    stack_write_decision [of False
     "\<lparr>inner_stackHigh = 0x7100, outer_stackHigh = 0x7200, inner_log = [],
      handle = \<lparr>tmread_result = (\<lambda>a m. 0 :: 64 word), calls = []\<rparr>\<rparr>" "\<lambda>a. 0" "0x7000" "0x7180" "[1, 2]"]
  by (simp add: load_mem_def upt_conv_Cons)

text \<open>
  Claim C6. For a write between the stack-high marks of the inner and the outer scope
  (and not below the frame address), the filter appends one entry to the undo log of the
  inner scope, holding the bytes that the memory has at the address before the barrier
  stores; the barrier then stores the value into that memory. The entry is the prior
  value: storing it back restores the memory from before the write.
\<close>

theorem undo_log_before_store:
  assumes "frame \<le> address" and "address \<le> outer_stackHigh td"
    and "inner_stackHigh td \<le> address"
  shows "is_stack_write td mem frame address (length val)
           = (True, td\<lparr>inner_log := inner_log td @ [(address, load_mem mem address (length val))]\<rparr>)
       \<and> ITM_W A td mem frame address val
           = Inr (td\<lparr>inner_log := inner_log td @ [(address, load_mem mem address (length val))]\<rparr>,
                  store_mem mem address val)
       \<and> load_mem (store_mem mem address val) address (length val) = val
       \<and> store_mem (store_mem mem address val) address (load_mem mem address (length val)) = mem"
  using assms by (simp add: is_stack_write_eq ITM_W_eq load_store_mem store_mem_undo)

text \<open>A write at the inner mark itself, over bytes that are all 7.\<close>

theorem undo_log_before_store_witness:
  "is_stack_write
       \<lparr>inner_stackHigh = 0x7100, outer_stackHigh = 0x7200, inner_log = [],
        handle = \<lparr>tmread_result = (\<lambda>a m. 0 :: 64 word), calls = []\<rparr>\<rparr>
       (\<lambda>a. 7) 0x7000 0x7100 2
     = (True, \<lparr>inner_stackHigh = 0x7100, outer_stackHigh = 0x7200, inner_log = [(0x7100, [7, 7])],
        handle = \<lparr>tmread_result = (\<lambda>a m. 0 :: 64 word), calls = []\<rparr>\<rparr>)
   \<and> ITM_W False
       \<lparr>inner_stackHigh = 0x7100, outer_stackHigh = 0x7200, inner_log = [],
        handle = \<lparr>tmread_result = (\<lambda>a m. 0 :: 64 word), calls = []\<rparr>\<rparr>
       (\<lambda>a. 7) 0x7000 0x7100 [1, 2]
     = Inr (\<lparr>inner_stackHigh = 0x7100, outer_stackHigh = 0x7200, inner_log = [(0x7100, [7, 7])],
        handle = \<lparr>tmread_result = (\<lambda>a m. 0 :: 64 word), calls = []\<rparr>\<rparr>,
        store_mem (\<lambda>a. 7) 0x7100 [1, 2])"
  using undo_log_before_store [of "0x7000" "0x7100"
      "\<lparr>inner_stackHigh = 0x7100, outer_stackHigh = 0x7200, inner_log = [],
        handle = \<lparr>tmread_result = (\<lambda>a m. 0 :: 64 word), calls = []\<rparr>\<rparr>" "\<lambda>a. 7" "[1, 2]" False]
  by (simp add: load_mem_def upt_conv_Cons numeral_2_eq_2)

text \<open>
  Claim C9, as stated, fails. One byte below the stack-high mark of the inner scope and
  above that of the outer scope, the filter answers at its second test: the write is
  instrumented, the undo log stays empty and the memory is not stored to. With the marks
  nested as usual (inner below outer), one byte below the inner mark is a store in place
  with an empty undo log.
\<close>

theorem write_below_inner_counterexample:
  "(0x2FFF :: addr) + 1 = 0x3000 \<and> (0x2000 :: addr) < 0x2FFF
   \<and> (\<exists>tx. ITM_W False
          \<lparr>inner_stackHigh = 0x3000, outer_stackHigh = 0x2000, inner_log = [],
           handle = \<lparr>tmread_result = (\<lambda>a m. 0 :: 64 word), calls = []\<rparr>\<rparr>
          (\<lambda>a. 0) 0x1000 0x2FFF [0x2A]
        = Inr (\<lparr>inner_stackHigh = 0x3000, outer_stackHigh = 0x2000, inner_log = [],
                handle = tx\<rparr>, (\<lambda>a. 0)))
   \<and> ITM_W False
          \<lparr>inner_stackHigh = 0x3000, outer_stackHigh = 0x4000, inner_log = [],
           handle = \<lparr>tmread_result = (\<lambda>a m. 0 :: 64 word), calls = []\<rparr>\<rparr>
          (\<lambda>a. 0) 0x1000 0x2FFF [0x2A]
        = Inr (\<lparr>inner_stackHigh = 0x3000, outer_stackHigh = 0x4000, inner_log = [],
                handle = \<lparr>tmread_result = (\<lambda>a m. 0 :: 64 word), calls = []\<rparr>\<rparr>,
               store_mem (\<lambda>a. 0) 0x2FFF [0x2A])"
  by (simp add: ITM_W_eq INST_Write_def INST_0_false_Write_def INST_0_true_Write_def
      store_T_def offset_of_def sizeof_ptr_def bytes_of_word_def Let_def)

text \<open>
  Claim C9, amended. A write to the address one byte above the stack-high mark of the
  inner scope and below that of the outer scope, not below the frame address, appends
  exactly one entry to the undo log, the bytes at the address before the store, and
  stores the value.
\<close>

theorem write_above_inner_logs_once:
  assumes "address = inner_stackHigh td + 1" and "address < outer_stackHigh td"
    and "frame \<le> address"
  shows "ITM_W A td mem frame address val =
           Inr (td\<lparr>inner_log := inner_log td @ [(address, load_mem mem address (length val))]\<rparr>,
                store_mem mem address val)"
  using assms by (simp add: ITM_W_eq)

text \<open>One byte above the inner mark, over a byte that is 9.\<close>

theorem write_above_inner_logs_once_witness:
  "ITM_W False
     \<lparr>inner_stackHigh = 0x7100, outer_stackHigh = 0x7200, inner_log = [],
      handle = \<lparr>tmread_result = (\<lambda>a m. 0 :: 64 word), calls = []\<rparr>\<rparr>
     (\<lambda>a. 9) 0x7000 0x7101 [1]
   = Inr (\<lparr>inner_stackHigh = 0x7100, outer_stackHigh = 0x7200,
           inner_log = [(0x7101, [9])],
           handle = \<lparr>tmread_result = (\<lambda>a m. 0 :: 64 word), calls = []\<rparr>\<rparr>,
          store_mem (\<lambda>a. 9) 0x7101 [1])"
  using write_above_inner_logs_once [of "0x7101"
     "\<lparr>inner_stackHigh = 0x7100, outer_stackHigh = 0x7200, inner_log = [],
      handle = \<lparr>tmread_result = (\<lambda>a m. 0 :: 64 word), calls = []\<rparr>\<rparr>" "0x7000" False "\<lambda>a. 9" "[1]"]
  by (simp add: load_mem_def)

section \<open>The loops in closed form\<close>

lemma read_loop_calls:
  "calls (snd (read_loop tx base m N i buf)) =
     calls tx @ map (\<lambda>k. TMRead (base + k * sizeof_ptr TYPE('w)) m) [i..<N]"
  for tx :: "'w::len word TxThread"
proof (induction tx base m N i buf rule: read_loop.induct)
  case (1 tx base m N i buf)
  show ?case
  proof (cases "i < N")
    case True
    let ?w = "tmread_result tx (base + i * sizeof_ptr TYPE('w)) m"
    let ?tx' = "tx\<lparr>calls := calls tx @ [TMRead (base + i * sizeof_ptr TYPE('w)) m]\<rparr>"
    have tm: "tmread tx (base + i * sizeof_ptr TYPE('w)) m = (?w, ?tx')"
      by (simp add: tmread_def)
    have step: "read_loop tx base m N i buf = read_loop ?tx' base m N (Suc i) (buf[i := ?w])"
      using True by (subst read_loop.simps) (simp add: tm)
    have u: "[i..<N] = i # [Suc i..<N]"
      using True by (simp add: upt_conv_Cons)
    show ?thesis
      unfolding step "1.IH"[OF True tm[symmetric]] u by simp
  next
    case False
    then show ?thesis
      by (subst read_loop.simps) simp
  qed
qed

lemma read_loop_result:
  "tmread_result (snd (read_loop tx base m N i buf)) = tmread_result tx"
  for tx :: "'w::len word TxThread"
proof (induction tx base m N i buf rule: read_loop.induct)
  case (1 tx base m N i buf)
  show ?case
  proof (cases "i < N")
    case True
    let ?w = "tmread_result tx (base + i * sizeof_ptr TYPE('w)) m"
    let ?tx' = "tx\<lparr>calls := calls tx @ [TMRead (base + i * sizeof_ptr TYPE('w)) m]\<rparr>"
    have tm: "tmread tx (base + i * sizeof_ptr TYPE('w)) m = (?w, ?tx')"
      by (simp add: tmread_def)
    have step: "read_loop tx base m N i buf = read_loop ?tx' base m N (Suc i) (buf[i := ?w])"
      using True by (subst read_loop.simps) (simp add: tm)
    show ?thesis
      unfolding step "1.IH"[OF True tm[symmetric]] by simp
  next
    case False
    then show ?thesis
      by (subst read_loop.simps) simp
  qed
qed

lemma write_loop_eq:
  "write_loop tx base m N i cast_to =
      tx\<lparr>calls := calls tx @ map (\<lambda>k. TMWrite (base + k * sizeof_ptr TYPE('w)) (cast_to ! k) m) [i..<N]\<rparr>"
  for tx :: "'w::len word TxThread"
proof (induction tx base m N i cast_to rule: write_loop.induct)
  case (1 tx base m N i cast_to)
  show ?case
  proof (cases "i < N")
    case True
    have "write_loop tx base m N i cast_to =
          write_loop (tmwrite tx (base + i * sizeof_ptr TYPE('w)) (cast_to ! i) m) base m N (Suc i) cast_to"
      using True by (subst write_loop.simps) simp
    also have "\<dots> = tx\<lparr>calls := calls tx @ map (\<lambda>k. TMWrite (base + k * sizeof_ptr TYPE('w)) (cast_to ! k) m) [i..<N]\<rparr>"
      using True by (simp only: "1.IH"[OF True]) (simp add: tmwrite_def upt_conv_Cons)
    finally show ?thesis .
  next
    case False
    then show ?thesis
      by (subst write_loop.simps) simp
  qed
qed

lemma ReadUnaligned_calls:
  "calls (snd (ReadUnaligned N sz tx addr offset)) =
     calls tx @ TMRead (base_of TYPE('w) addr) (make_mask offset (sizeof_ptr TYPE('w)))
       # map (\<lambda>k. TMRead (base_of TYPE('w) addr + k * sizeof_ptr TYPE('w)) (make_mask 0 (sizeof_ptr TYPE('w)))) [1..<N]
       @ [TMRead (base_of TYPE('w) addr + N * sizeof_ptr TYPE('w)) (make_mask 0 offset)]"
  for tx :: "'w::len word TxThread"
  by (simp add: ReadUnaligned_def Let_def tmread_def split_beta read_loop_calls)

lemma sizeof_ptr_pos: "8 dvd LENGTH('w::len) \<Longrightarrow> 0 < sizeof_ptr TYPE('w)"
proof -
  assume "8 dvd LENGTH('w)"
  then obtain k where k: "LENGTH('w) = 8 * k" by (auto elim: dvdE)
  have "0 < LENGTH('w)" by simp
  with k have "0 < k" by (cases k) simp_all
  then show ?thesis by (simp add: sizeof_ptr_def k)
qed

lemma offset_of_less: "8 dvd LENGTH('w::len) \<Longrightarrow> offset_of TYPE('w) a < sizeof_ptr TYPE('w)"
  by (simp add: offset_of_def sizeof_ptr_pos)

lemma length_bytes_of_word [simp]: "length (bytes_of_word (w :: 'w::len word)) = sizeof_ptr TYPE('w)"
  by (simp add: bytes_of_word_def)

lemma length_bytes_of_words [simp]:
  "length (bytes_of_words (ws :: 'w::len word list)) = length ws * sizeof_ptr TYPE('w)"
  by (induction ws) (simp_all add: bytes_of_words_def)

lemma length_words_of_bytes [simp]:
  "length (words_of_bytes bs :: 'w::len word list) = length bs div sizeof_ptr TYPE('w)"
  by (simp add: words_of_bytes_def)

lemma upt_0_Suc_split: "1 \<le> N \<Longrightarrow> [0..<N + 1] = 0 # [1..<N] @ [N]"
  by (simp add: upt_conv_Cons)

lemma WriteUnaligned_eq:
  fixes tx :: "'w::len word TxThread"
  assumes "offset + length val \<le> (N + 1) * sizeof_ptr TYPE('w)"
  shows "WriteUnaligned N tx addr val offset =
     (let cast_to = words_of_bytes (take offset (bytes_of_words (replicate (N + 1) (0 :: 'w word))) @ val
                      @ drop (offset + length val) (bytes_of_words (replicate (N + 1) (0 :: 'w word)))) :: 'w word list;
          base = base_of TYPE('w) addr
      in Inr (tx\<lparr>calls := calls tx @ TMWrite base (cast_to ! 0) (make_mask offset (sizeof_ptr TYPE('w)))
            # map (\<lambda>k. TMWrite (base + k * sizeof_ptr TYPE('w)) (cast_to ! k) (make_mask 0 (sizeof_ptr TYPE('w)))) [1..<N]
            @ [TMWrite (base + N * sizeof_ptr TYPE('w)) (cast_to ! N) (make_mask 0 offset)]\<rparr>))"
  using assms by (simp add: WriteUnaligned_def store_T_def Let_def write_loop_eq tmwrite_def)

lemma WriteUnaligned_masks:
  fixes tx :: "'w::len word TxThread"
  assumes "offset + length val \<le> (N + 1) * sizeof_ptr TYPE('w)"
  shows "\<exists>tx'. WriteUnaligned N tx addr val offset = Inr tx' \<and>
     map access_mask (drop (length (calls tx)) (calls tx')) =
       make_mask offset (sizeof_ptr TYPE('w))
         # replicate (N - 1) (make_mask 0 (sizeof_ptr TYPE('w))) @ [make_mask 0 offset]"
  by (simp add: WriteUnaligned_eq[OF assms] Let_def comp_def map_replicate_const)

lemma ReadUnaligned_masks:
  fixes tx :: "'w::len word TxThread"
  shows "map access_mask (drop (length (calls tx)) (calls (snd (ReadUnaligned N sz tx addr offset)))) =
       make_mask offset (sizeof_ptr TYPE('w))
         # replicate (N - 1) (make_mask 0 (sizeof_ptr TYPE('w))) @ [make_mask 0 offset]"
  by (simp add: ReadUnaligned_calls comp_def map_replicate_const)

lemma write_middle_eq:
  "write_middle tx base m e i words =
      tx\<lparr>accesses := accesses tx @ map (\<lambda>k. TMWrite (base + k * sizeof_ptr TYPE('w)) (words ! k) m) [i..<e]\<rparr>"
  for tx :: "'w::len word TX"
proof (induction tx base m e i words rule: write_middle.induct)
  case (1 tx base m e i words)
  show ?case
  proof (cases "i < e")
    case True
    have "write_middle tx base m e i words =
          write_middle (WRITE tx (base + i * sizeof_ptr TYPE('w)) (words ! i) m) base m e (Suc i) words"
      using True by (subst write_middle.simps) simp
    also have "\<dots> = tx\<lparr>accesses := accesses tx @ map (\<lambda>k. TMWrite (base + k * sizeof_ptr TYPE('w)) (words ! k) m) [i..<e]\<rparr>"
      using True by (simp only: "1.IH"[OF True]) (simp add: WRITE_def upt_conv_Cons)
    finally show ?thesis .
  next
    case False
    then show ?thesis
      by (subst write_middle.simps) simp
  qed
qed

lemma inst_write_eq:
  fixes tx :: "'w::len word TX"
  assumes "\<not> prefilter addr" and "words \<noteq> []"
    and "OffsetOf TYPE('w) addr + length val \<le> length words * sizeof_ptr TYPE('w)"
  shows "inst_write prefilter tx mem words addr val =
     (let base = BaseOf TYPE('w) addr; off = OffsetOf TYPE('w) addr; N = length words;
          ws = words_of_bytes (take off (bytes_of_words words) @ val
                      @ drop (off + length val) (bytes_of_words words)) :: 'w word list
      in Inr (tx\<lparr>accesses := accesses tx
            @ TMWrite base (ws ! 0) (make_mask off (min_size (sizeof_ptr TYPE('w)) (off + length val)))
            # map (\<lambda>k. TMWrite (base + k * sizeof_ptr TYPE('w)) (ws ! k) (make_mask 0 (sizeof_ptr TYPE('w)))) [1..<N - 1]
            @ (if N > 1 \<and> off \<noteq> 0
               then [TMWrite (base + N * sizeof_ptr TYPE('w)) (ws ! (N - 1)) (make_mask 0 off)] else [])\<rparr>, mem))"
  using assms by (simp add: inst_write_def store_T_def Let_def write_middle_eq WRITE_def)

section \<open>Masks and calls of the barriers\<close>

lemma make_mask_7_8: "(make_mask 7 8 :: 64 word) = 0xFF00000000000000"
  by (simp add: make_mask_def sizeof_ptr_def mask_eq_exp_minus_1 push_bit_eq_mult)

lemma make_mask_4_8: "(make_mask 4 8 :: 64 word) = 0xFFFFFFFF00000000"
  by (simp add: make_mask_def sizeof_ptr_def mask_eq_exp_minus_1 push_bit_eq_mult)

lemma make_mask_0_4: "(make_mask 0 4 :: 64 word) = 0x00000000FFFFFFFF"
  by (simp add: make_mask_def sizeof_ptr_def mask_eq_exp_minus_1 push_bit_eq_mult)

lemma INST_0_true_Read_calls:
  "calls (snd (INST_0_true_Read sz tx addr)) =
     calls tx @ [TMRead (base_of TYPE('w) addr)
                   (make_mask (offset_of TYPE('w) addr) (offset_of TYPE('w) addr + sz))]"
  for tx :: "'w::len word TxThread"
  by (simp add: INST_0_true_Read_def Let_def tmread_def)

lemma INST_0_true_Write_eq:
  fixes tx :: "'w::len word TxThread"
  assumes "offset_of TYPE('w) addr + length val \<le> sizeof_ptr TYPE('w)"
  shows "INST_0_true_Write tx addr val =
     Inr (tx\<lparr>calls := calls tx @
       [TMWrite (base_of TYPE('w) addr)
          (word_of_bytes (take (offset_of TYPE('w) addr) (bytes_of_word (0 :: 'w word)) @ val
             @ drop (offset_of TYPE('w) addr + length val) (bytes_of_word (0 :: 'w word))))
          (make_mask (offset_of TYPE('w) addr) (offset_of TYPE('w) addr + length val))]\<rparr>)"
  using assms by (simp add: INST_0_true_Write_def store_T_def Let_def tmwrite_def)

text \<open>
  Claim C7. For a value smaller than a word (at least one byte) that does not cross a
  word boundary, \<open>offset + sizeof(T) \<le> sizeof(void*)\<close>, the read barrier and the
  write barrier of \<open>INST<T>\<close> each issue exactly one transactional access, at the
  base word, with the mask \<open>make_mask offset (offset + sizeof(T))\<close>, whose bytes
  \<open>[offset, offset + sizeof(T))\<close> are \<open>0xFF\<close> and whose other bytes are zero. This
  holds whether the architecture declares the type aligned or not.
\<close>

theorem subword_single_access:
  fixes tx :: "'w::len word TxThread"
  assumes "8 dvd LENGTH('w)" and "1 \<le> sz" and "sz < sizeof_ptr TYPE('w)"
    and "offset_of TYPE('w) addr + sz \<le> sizeof_ptr TYPE('w)" and "length val = sz"
  shows "calls (snd (INST_Read A sz tx addr)) =
           calls tx @ [TMRead (base_of TYPE('w) addr)
                         (make_mask (offset_of TYPE('w) addr) (offset_of TYPE('w) addr + sz))]
       \<and> (\<exists>w. INST_Write A tx addr val =
             Inr (tx\<lparr>calls := calls tx @ [TMWrite (base_of TYPE('w) addr) w
                         (make_mask (offset_of TYPE('w) addr) (offset_of TYPE('w) addr + sz))]\<rparr>))
       \<and> (\<forall>k. byte_of (make_mask (offset_of TYPE('w) addr) (offset_of TYPE('w) addr + sz) :: 'w word) k
              = (if offset_of TYPE('w) addr \<le> k \<and> k < offset_of TYPE('w) addr + sz then 0xFF else 0x00))"
proof -
  have N: "sz div sizeof_ptr TYPE('w) = 0"
    using assms(3) by simp
  have r: "INST_Read A sz tx addr = INST_0_true_Read sz tx addr"
    using assms(4) by (simp add: INST_Read_def N INST_0_false_Read_def Let_def)
  have w: "INST_Write A tx addr val = INST_0_true_Write tx addr val"
    using assms(4,5) by (simp add: INST_Write_def N INST_0_false_Write_def Let_def)
  have m: "\<forall>k. byte_of (make_mask (offset_of TYPE('w) addr) (offset_of TYPE('w) addr + sz) :: 'w word) k
              = (if offset_of TYPE('w) addr \<le> k \<and> k < offset_of TYPE('w) addr + sz then 0xFF else 0x00)"
    using assms(1,2,4) by (simp add: byte_of_make_mask)
  have le: "offset_of TYPE('w) addr + length val \<le> sizeof_ptr TYPE('w)"
    using assms(4,5) by simp
  have wr: "\<exists>w. INST_Write A tx addr val =
             Inr (tx\<lparr>calls := calls tx @ [TMWrite (base_of TYPE('w) addr) w
                         (make_mask (offset_of TYPE('w) addr) (offset_of TYPE('w) addr + sz))]\<rparr>)"
    unfolding w INST_0_true_Write_eq [OF le] assms(5) by (rule exI) (rule refl)
  show ?thesis
    using m wr by (simp add: r INST_0_true_Read_calls)
qed

text \<open>One byte at offset 7 of a 64-bit word: one access, mask \<open>[7, 8)\<close>.\<close>

theorem subword_single_access_witness:
  "calls (snd (INST_Read False 1 \<lparr>tmread_result = (\<lambda>a m. 0 :: 64 word), calls = []\<rparr> 0x1007))
     = [TMRead 0x1000 0xFF00000000000000]
   \<and> (\<exists>w. INST_Write False \<lparr>tmread_result = (\<lambda>a m. 0 :: 64 word), calls = []\<rparr> 0x1007 [0x2A]
        = Inr \<lparr>tmread_result = (\<lambda>a m. 0 :: 64 word), calls = [TMWrite 0x1000 w 0xFF00000000000000]\<rparr>)"
  using subword_single_access [where 'w = 64 and sz = 1 and addr = "0x1007" and val = "[0x2A]"
      and A = False and tx = "\<lparr>tmread_result = (\<lambda>a m. 0 :: 64 word), calls = []\<rparr>"]
  by (simp add: offset_of_def base_of_def sizeof_ptr_def make_mask_7_8)

text \<open>
  Claim C8. For a value smaller than a word, \<open>INST<T, 0u, false>\<close> reads and writes
  as \<open>INST<T, 1u, false>\<close> does when the value crosses the word boundary
  (\<open>offset + sizeof(T) > sizeof(void*)\<close>): the result and the descriptor, with the
  calls issued, their addresses, masks and words, are equal. When the value does not
  cross the boundary it reads and writes as \<open>INST<T, 0u, true>\<close>.
\<close>

theorem overflowing_subword_as_unaligned_word:
  fixes tx :: "'w::len word TxThread"
  assumes "sz < sizeof_ptr TYPE('w)" and "length val = sz"
  shows "INST_0_false_Read sz tx addr =
           (if offset_of TYPE('w) addr + sz \<le> sizeof_ptr TYPE('w)
            then INST_0_true_Read sz tx addr else INST_N_false_Read 1 sz tx addr)
       \<and> INST_0_false_Write tx addr val =
           (if offset_of TYPE('w) addr + sz \<le> sizeof_ptr TYPE('w)
            then INST_0_true_Write tx addr val else INST_N_false_Write 1 tx addr val)"
  using assms
  by (auto simp add: INST_0_false_Read_def INST_0_false_Write_def INST_N_false_Read_def
      INST_N_false_Write_def Let_def)

text \<open>Two bytes at offset 7 of a 64-bit word: two accesses, as for an unaligned word.\<close>

theorem overflowing_subword_as_unaligned_word_witness:
  "INST_0_false_Read 2 \<lparr>tmread_result = (\<lambda>a m. 0 :: 64 word), calls = []\<rparr> 0x1007
     = INST_N_false_Read 1 2 \<lparr>tmread_result = (\<lambda>a m. 0 :: 64 word), calls = []\<rparr> 0x1007
   \<and> INST_0_false_Write \<lparr>tmread_result = (\<lambda>a m. 0 :: 64 word), calls = []\<rparr> 0x1007 [1, 2]
     = INST_N_false_Write 1 \<lparr>tmread_result = (\<lambda>a m. 0 :: 64 word), calls = []\<rparr> 0x1007 [1, 2]
   \<and> calls (snd (INST_0_false_Read 2 \<lparr>tmread_result = (\<lambda>a m. 0 :: 64 word), calls = []\<rparr> 0x1007))
     = [TMRead 0x1000 (make_mask 7 8), TMRead 0x1008 (make_mask 0 7)]"
  using overflowing_subword_as_unaligned_word [where 'w = 64 and sz = 2 and addr = "0x1007"
      and val = "[1, 2]" and tx = "\<lparr>tmread_result = (\<lambda>a m. 0 :: 64 word), calls = []\<rparr>"]
  by (simp add: offset_of_def base_of_def sizeof_ptr_def INST_N_false_Read_def ReadUnaligned_calls)

lemma OffsetOf_eq: "OffsetOf t a = offset_of t a"
  by (simp add: OffsetOf_def offset_of_def)

lemma BaseOf_eq: "BaseOf t a = base_of t a"
  by (simp add: BaseOf_def base_of_def)

text \<open>The two words of eight bytes stored at offset 4 of a zeroed two-word buffer.\<close>

lemma bytes_of_zero_words:
  "bytes_of_words [0, 0 :: 64 word] = [0, 0, 0, 0, 0, 0, 0, 0, 0, 0, 0, 0, 0, 0, 0, 0]"
proof -
  have "[0..<8] = [0, 1, 2, 3, 4, 5, 6, 7 :: nat]"
    by (simp add: upt_conv_Cons)
  then show ?thesis
    by (simp add: bytes_of_words_def bytes_of_word_def byte_of_def sizeof_ptr_def)
qed

lemma word_of_bytes_lo: "(word_of_bytes [0, 0, 0, 0, 1, 2, 3, 4] :: 64 word) = 0x0403020100000000"
  by (simp add: push_bit_eq_mult)

lemma word_of_bytes_hi: "(word_of_bytes [5, 6, 7, 8, 0, 0, 0, 0] :: 64 word) = 0x0000000008070605"
  by (simp add: push_bit_eq_mult)

lemma stored_words_example:
  "(words_of_bytes (take 4 (bytes_of_words [0, 0 :: 64 word])
       @ 1 # 2 # 3 # 4 # 5 # 6 # 7 # 8 # drop 12 (bytes_of_words [0, 0 :: 64 word])) :: 64 word list)
   = [0x0403020100000000, 0x0000000008070605]"
proof -
  have bs: "take 4 (bytes_of_words [0, 0 :: 64 word])
       @ 1 # 2 # 3 # 4 # 5 # 6 # 7 # 8 # drop 12 (bytes_of_words [0, 0 :: 64 word])
     = [0, 0, 0, 0, 1, 2, 3, 4] @ [5, 6, 7, 8, 0, 0, 0, 0]"
    unfolding bytes_of_zero_words by simp
  have u: "[0..<2] = [0, 1 :: nat]"
    by (simp add: upt_conv_Cons)
  have "(words_of_bytes ([0, 0, 0, 0, 1, 2, 3, 4] @ [5, 6, 7, 8, 0, 0, 0, 0]) :: 64 word list)
      = [word_of_bytes [0, 0, 0, 0, 1, 2, 3, 4], word_of_bytes [5, 6, 7, 8, 0, 0, 0, 0]]"
    by (simp add: words_of_bytes_def sizeof_ptr_def u del: word_of_bytes.simps)
  then show ?thesis
    unfolding bs word_of_bytes_lo word_of_bytes_hi .
qed

text \<open>
  Claim C3 asks that a value of \<open>N \<ge> 1\<close> words at an address that is not word-aligned be
  accessed in \<open>N + 1\<close> transactional word accesses: its first word \<open>base\<close> with the mask
  \<open>[offset, wordsize)\<close>, each middle word \<open>base + k\<close>, \<open>1 \<le> k < N\<close>, with the full-word
  mask, and its final word \<open>base + N\<close> with the mask \<open>[0, offset)\<close>.
  \<open>INST<T, N, false>::Read\<close> and \<open>Write\<close> of \<open>libitm-5.12.cpp\<close> do exactly that, and
  \<open>Write\<close> passes word \<open>k\<close> of its buffer, the value stored at \<open>offset\<close> over zeroes, to
  access \<open>k\<close>. \<open>write\<close> of \<open>inst.hpp\<close>, over the \<open>N + 1\<close> buffer words that the value
  spans, issues \<open>N + 1\<close> accesses with the same masks and the same words, but the last
  one, with the mask \<open>[0, offset)\<close>, goes to \<open>base + (N + 1)\<close>: the value's final word
  \<open>base + N\<close>, which holds its last byte, gets no access.
\<close>

theorem unaligned_multiword_accesses:
  fixes tx :: "'w::len word TxThread" and stx :: "'w word TX"
  assumes "8 dvd LENGTH('w)" and "1 \<le> N" and "offset_of TYPE('w) addr \<noteq> 0"
    and "sz = N * sizeof_ptr TYPE('w)" and "length val = sz"
    and "length words = N + 1" and "\<not> prefilter addr"
  shows "calls (snd (INST_N_false_Read N sz tx addr)) =
           calls tx
           @ TMRead (base_of TYPE('w) addr) (make_mask (offset_of TYPE('w) addr) (sizeof_ptr TYPE('w)))
           # map (\<lambda>k. TMRead (base_of TYPE('w) addr + k * sizeof_ptr TYPE('w))
                        (make_mask 0 (sizeof_ptr TYPE('w)))) [1..<N]
           @ [TMRead (base_of TYPE('w) addr + N * sizeof_ptr TYPE('w))
                (make_mask 0 (offset_of TYPE('w) addr))]
       \<and> INST_N_false_Write N tx addr val =
           (let cast_to = words_of_bytes
                  (take (offset_of TYPE('w) addr) (bytes_of_words (replicate (N + 1) (0 :: 'w word)))
                   @ val
                   @ drop (offset_of TYPE('w) addr + length val)
                       (bytes_of_words (replicate (N + 1) (0 :: 'w word)))) :: 'w word list
            in Inr (tx\<lparr>calls := calls tx
                 @ TMWrite (base_of TYPE('w) addr) (cast_to ! 0)
                     (make_mask (offset_of TYPE('w) addr) (sizeof_ptr TYPE('w)))
                 # map (\<lambda>k. TMWrite (base_of TYPE('w) addr + k * sizeof_ptr TYPE('w)) (cast_to ! k)
                              (make_mask 0 (sizeof_ptr TYPE('w)))) [1..<N]
                 @ [TMWrite (base_of TYPE('w) addr + N * sizeof_ptr TYPE('w)) (cast_to ! N)
                      (make_mask 0 (offset_of TYPE('w) addr))]\<rparr>))
       \<and> inst_write prefilter stx mem words addr val =
           (let ws = words_of_bytes
                  (take (OffsetOf TYPE('w) addr) (bytes_of_words words) @ val
                   @ drop (OffsetOf TYPE('w) addr + length val) (bytes_of_words words)) :: 'w word list
            in Inr (stx\<lparr>accesses := accesses stx
                 @ TMWrite (BaseOf TYPE('w) addr) (ws ! 0)
                     (make_mask (OffsetOf TYPE('w) addr) (sizeof_ptr TYPE('w)))
                 # map (\<lambda>k. TMWrite (BaseOf TYPE('w) addr + k * sizeof_ptr TYPE('w)) (ws ! k)
                              (make_mask 0 (sizeof_ptr TYPE('w)))) [1..<N]
                 @ [TMWrite (BaseOf TYPE('w) addr + (N + 1) * sizeof_ptr TYPE('w)) (ws ! N)
                      (make_mask 0 (OffsetOf TYPE('w) addr))]\<rparr>, mem))
       \<and> BaseOf TYPE('w) addr + N * sizeof_ptr TYPE('w) \<le> addr + length val - 1
       \<and> addr + length val - 1 < BaseOf TYPE('w) addr + (N + 1) * sizeof_ptr TYPE('w)
       \<and> BaseOf TYPE('w) addr + N * sizeof_ptr TYPE('w)
            \<notin> set (BaseOf TYPE('w) addr
                     # map (\<lambda>k. BaseOf TYPE('w) addr + k * sizeof_ptr TYPE('w)) [1..<N]
                     @ [BaseOf TYPE('w) addr + (N + 1) * sizeof_ptr TYPE('w)])"
proof -
  let ?W = "sizeof_ptr TYPE('w)"
  let ?off = "offset_of TYPE('w) addr"
  let ?Off = "OffsetOf TYPE('w) addr"
  let ?base = "BaseOf TYPE('w) addr"
  have W: "0 < ?W" using assms(1) by (rule sizeof_ptr_pos)
  have off: "?off < ?W" using assms(1) by (rule offset_of_less)
  have Off: "?Off < ?W" using off by (simp add: OffsetOf_eq)
  have pos: "0 < ?Off" using assms(3) by (simp add: OffsetOf_eq)
  have len: "length val = N * ?W" using assms(4,5) by simp
  have NW: "?W \<le> N * ?W" using assms(2) by simp
  have fits: "?off + length val \<le> (N + 1) * ?W"
    using off len by simp
  have rd: "INST_N_false_Read N sz tx addr = ReadUnaligned N sz tx addr ?off"
    using assms(3) by (simp add: INST_N_false_Read_def Let_def)
  have wr: "INST_N_false_Write N tx addr val = WriteUnaligned N tx addr val ?off"
    using assms(3) by (simp add: INST_N_false_Write_def Let_def)
  have c1: "calls (snd (INST_N_false_Read N sz tx addr)) =
           calls tx
           @ TMRead (base_of TYPE('w) addr) (make_mask ?off ?W)
           # map (\<lambda>k. TMRead (base_of TYPE('w) addr + k * ?W) (make_mask 0 ?W)) [1..<N]
           @ [TMRead (base_of TYPE('w) addr + N * ?W) (make_mask 0 ?off)]"
    unfolding rd ReadUnaligned_calls by (simp add: Let_def)
  have c2: "INST_N_false_Write N tx addr val =
           (let cast_to = words_of_bytes
                  (take ?off (bytes_of_words (replicate (N + 1) (0 :: 'w word))) @ val
                   @ drop (?off + length val)
                       (bytes_of_words (replicate (N + 1) (0 :: 'w word)))) :: 'w word list
            in Inr (tx\<lparr>calls := calls tx
                 @ TMWrite (base_of TYPE('w) addr) (cast_to ! 0) (make_mask ?off ?W)
                 # map (\<lambda>k. TMWrite (base_of TYPE('w) addr + k * ?W) (cast_to ! k)
                              (make_mask 0 ?W)) [1..<N]
                 @ [TMWrite (base_of TYPE('w) addr + N * ?W) (cast_to ! N) (make_mask 0 ?off)]\<rparr>))"
    unfolding wr WriteUnaligned_eq [OF fits] by (simp add: Let_def)
  have ne: "words \<noteq> []" using assms(6) by auto
  have fits': "?Off + length val \<le> length words * ?W"
    using Off len assms(6) by simp
  have mn: "min_size ?W (?Off + length val) = ?W"
  proof -
    have "?W < ?Off + length val" using NW pos unfolding len by linarith
    then show ?thesis by (simp add: min_size_def)
  qed
  have c3: "inst_write prefilter stx mem words addr val =
           (let ws = words_of_bytes
                  (take ?Off (bytes_of_words words) @ val
                   @ drop (?Off + length val) (bytes_of_words words)) :: 'w word list
            in Inr (stx\<lparr>accesses := accesses stx
                 @ TMWrite ?base (ws ! 0) (make_mask ?Off ?W)
                 # map (\<lambda>k. TMWrite (?base + k * ?W) (ws ! k) (make_mask 0 ?W)) [1..<N]
                 @ [TMWrite (?base + (N + 1) * ?W) (ws ! N) (make_mask 0 ?Off)]\<rparr>, mem))"
    using assms(2,6) pos
    by (simp add: inst_write_eq [where prefilter = prefilter and addr = addr, OF assms(7) ne fits']
        Let_def mn)
  have addr: "addr = ?base + ?Off"
    by (simp add: BaseOf_def OffsetOf_def)
  have c4: "?base + N * ?W \<le> addr + length val - 1"
    using pos unfolding len by (subst addr) linarith
  have c5: "addr + length val - 1 < ?base + (N + 1) * ?W"
    using Off W unfolding len by (subst addr) simp
  have "N * ?W \<noteq> 0" using NW W by linarith
  moreover have "N * ?W \<noteq> (N + 1) * ?W" using W by simp
  moreover have "\<And>k. k < N \<Longrightarrow> N * ?W \<noteq> k * ?W" using W by simp
  ultimately have c6: "?base + N * ?W
            \<notin> set (?base # map (\<lambda>k. ?base + k * ?W) [1..<N] @ [?base + (N + 1) * ?W])"
    by auto
  from c1 c2 c3 c4 c5 c6 show ?thesis by blast
qed

text \<open>
  Eight bytes at \<open>0x1004\<close> on a 64-bit target: \<open>Read\<close> and \<open>Write\<close> of
  \<open>libitm-5.12.cpp\<close> access \<open>0x1000\<close> with the mask \<open>[4, 8)\<close> and \<open>0x1008\<close> with the mask
  \<open>[0, 4)\<close>; \<open>write\<close> of \<open>inst.hpp\<close> sends the mask \<open>[0, 4)\<close> to \<open>0x1010\<close>.
\<close>

theorem unaligned_multiword_accesses_witness:
  "calls (snd (INST_N_false_Read 1 8
       \<lparr>tmread_result = (\<lambda>a m. 0 :: 64 word), calls = []\<rparr> 0x1004))
     = [TMRead 0x1000 0xFFFFFFFF00000000, TMRead 0x1008 0x00000000FFFFFFFF]
   \<and> (\<exists>tx'. INST_N_false_Write 1 \<lparr>tmread_result = (\<lambda>a m. 0 :: 64 word), calls = []\<rparr> 0x1004
                [1, 2, 3, 4, 5, 6, 7, 8] = Inr tx'
          \<and> calls tx' = [TMWrite 0x1000 0x0403020100000000 0xFFFFFFFF00000000,
                          TMWrite 0x1008 0x0000000008070605 0x00000000FFFFFFFF])
   \<and> (\<exists>stx'. inst_write (\<lambda>a. False)
          \<lparr>alg_tm_read_aligned_word = (\<lambda>a m. 0 :: 64 word),
           alg_tm_read_aligned_word_ro = (\<lambda>a m. 0), accesses = []\<rparr>
          (\<lambda>a. 0) [0, 0] 0x1004 [1, 2, 3, 4, 5, 6, 7, 8] = Inr (stx', (\<lambda>a. 0))
          \<and> accesses stx' = [TMWrite 0x1000 0x0403020100000000 0xFFFFFFFF00000000,
                              TMWrite 0x1010 0x0000000008070605 0x00000000FFFFFFFF])
   \<and> (0x1008 :: addr) \<notin> set [0x1000, 0x1010]"
proof -
  let ?tx = "\<lparr>tmread_result = (\<lambda>a m. 0 :: 64 word), calls = []\<rparr>"
  let ?stx = "\<lparr>alg_tm_read_aligned_word = (\<lambda>a m. 0 :: 64 word),
               alg_tm_read_aligned_word_ro = (\<lambda>a m. 0), accesses = []\<rparr>"
  have W: "sizeof_ptr TYPE(64) = 8"
    by (simp add: sizeof_ptr_def)
  have off: "offset_of TYPE(64) 0x1004 = 4"
    by (simp add: offset_of_def W)
  have Off: "OffsetOf TYPE(64) 0x1004 = 4"
    by (simp add: OffsetOf_def W)
  have base: "base_of TYPE(64) 0x1004 = 0x1000"
    by (simp add: base_of_def W)
  have Base: "BaseOf TYPE(64) 0x1004 = 0x1000"
    by (simp add: BaseOf_def W)
  have h1: "8 dvd LENGTH(64)" by simp
  have h2: "(1 :: nat) \<le> 1" by simp
  have h3: "offset_of TYPE(64) 0x1004 \<noteq> 0" by (simp add: off)
  have h4: "(8 :: nat) = 1 * sizeof_ptr TYPE(64)" by (simp add: W)
  have h5: "length [1, 2, 3, 4, 5, 6, 7, 8 :: byte] = 8" by simp
  have h6: "length [0, 0 :: 64 word] = 1 + 1" by simp
  have h7: "\<not> (\<lambda>a :: addr. False) 0x1004" by simp
  note t = unaligned_multiword_accesses [where prefilter = "\<lambda>a. False" and addr = "0x1004"
      and tx = ?tx and stx = ?stx and mem = "\<lambda>a. 0", OF h1 h2 h3 h4 h5 h6 h7]
  show ?thesis
    using t unfolding off Off base Base W make_mask_4_8 make_mask_0_4 Let_def
    by (simp add: stored_words_example)
qed

section \<open>The word addresses of a multiword access\<close>

lemma read_word_nohit:
  assumes "\<not> fst (hit raw a (words ! ih) m)"
  shows "read_word raw ReadAlignedWord_Read tx words a ih im m =
     (if ih < length words \<and> im < length words
      then Inr ((words[ih := snd (hit raw a (words ! ih) m)])
                 [im := merge raw (alg_tm_read_aligned_word tx a m)
                          ((words[ih := snd (hit raw a (words ! ih) m)]) ! im)])
      else Inl OutOfBounds,
      if ih < length words then tx\<lparr>accesses := accesses tx @ [TMRead a m]\<rparr> else tx)"
  using assms
  by (simp add: read_word_def ReadAlignedWord_Read_def Let_def split_beta)

lemma read_words_middle_nohit:
  fixes tx :: "'w::len word TX"
  assumes "\<And>a s m. \<not> fst (hit raw a s m)" and "e \<le> length words"
  shows "\<exists>ws. length ws = length words \<and>
     read_words_middle raw ReadAlignedWord_Read tx words base m e i =
       (Inr ws, tx\<lparr>accesses := accesses tx
                  @ map (\<lambda>k. TMRead (base + k * sizeof_ptr TYPE('w)) m) [i..<e]\<rparr>)"
  using assms(2)
proof (induction "e - i" arbitrary: i tx words)
  case 0
  then have "\<not> i < e" by simp
  then show ?case
    by (subst read_words_middle.simps) simp
next
  case (Suc n)
  then have lt: "i < e" by simp
  let ?a = "base + i * sizeof_ptr TYPE('w)"
  let ?ws = "(words[i := snd (hit raw ?a (words ! i) m)])
                 [i := merge raw (alg_tm_read_aligned_word tx ?a m)
                          ((words[i := snd (hit raw ?a (words ! i) m)]) ! i)]"
  let ?tx = "tx\<lparr>accesses := accesses tx @ [TMRead ?a m]\<rparr>"
  have i: "i < length words" using lt Suc.prems by simp
  have step: "read_word raw ReadAlignedWord_Read tx words ?a i i m = (Inr ?ws, ?tx)"
    using i by (simp add: read_word_nohit [OF assms(1)])
  have n: "n = e - Suc i" using Suc.hyps(2) by simp
  have len: "e \<le> length ?ws" using Suc.prems by simp
  obtain ws where ws: "length ws = length ?ws"
    "read_words_middle raw ReadAlignedWord_Read ?tx ?ws base m e (Suc i) =
       (Inr ws, ?tx\<lparr>accesses := accesses ?tx
                  @ map (\<lambda>k. TMRead (base + k * sizeof_ptr TYPE('w)) m) [Suc i..<e]\<rparr>)"
    using Suc.hyps(1) [OF n len] by blast
  have u: "[i..<e] = i # [Suc i..<e]"
    using lt by (simp add: upt_conv_Cons)
  have "read_words_middle raw ReadAlignedWord_Read tx words base m e i =
        read_words_middle raw ReadAlignedWord_Read ?tx ?ws base m e (Suc i)"
    using lt by (subst read_words_middle.simps) (simp add: step)
  then show ?case
    using ws unfolding u by simp
qed

lemma read_words_nohit:
  fixes tx :: "'w::len word TX"
  assumes "\<And>a s m. \<not> fst (hit raw a s m)" and "2 \<le> N" and "length words = N" and "off \<noteq> 0"
  shows "read_words sz raw ReadAlignedWord_Read N tx words base off =
       (Inl OutOfBounds,
        tx\<lparr>accesses := accesses tx
           @ TMRead base (make_mask off (min_size (sizeof_ptr TYPE('w)) (off + sz)))
           # map (\<lambda>k. TMRead (base + k * sizeof_ptr TYPE('w)) (make_mask 0 (sizeof_ptr TYPE('w)))) [1..<N - 1]
           @ [TMRead (base + N * sizeof_ptr TYPE('w)) (make_mask 0 off)]\<rparr>)"
proof -
  let ?m0 = "make_mask off (min_size (sizeof_ptr TYPE('w)) (off + sz)) :: 'w word"
  let ?mm = "make_mask 0 (sizeof_ptr TYPE('w)) :: 'w word"
  let ?ws0 = "(words[0 := snd (hit raw base (words ! 0) ?m0)])
                 [0 := merge raw (alg_tm_read_aligned_word tx base ?m0)
                          ((words[0 := snd (hit raw base (words ! 0) ?m0)]) ! 0)]"
  let ?tx0 = "tx\<lparr>accesses := accesses tx @ [TMRead base ?m0]\<rparr>"
  have first: "read_word raw ReadAlignedWord_Read tx words base 0 0 ?m0 = (Inr ?ws0, ?tx0)"
    using assms(2,3) by (simp add: read_word_nohit [OF assms(1)])
  have len0: "N - 1 \<le> length ?ws0" using assms(3) by simp
  obtain ws where ws: "length ws = length ?ws0"
    "read_words_middle raw ReadAlignedWord_Read ?tx0 ?ws0 base ?mm (N - 1) 1 =
       (Inr ws, ?tx0\<lparr>accesses := accesses ?tx0
                  @ map (\<lambda>k. TMRead (base + k * sizeof_ptr TYPE('w)) ?mm) [1..<N - 1]\<rparr>)"
    using read_words_middle_nohit [OF assms(1) len0, of ?tx0 base ?mm 1] by blast
  let ?tx1 = "?tx0\<lparr>accesses := accesses ?tx0
                  @ map (\<lambda>k. TMRead (base + k * sizeof_ptr TYPE('w)) ?mm) [1..<N - 1]\<rparr>"
  have lenws: "length ws = N" using ws(1) assms(3) by simp
  have last: "read_word raw ReadAlignedWord_Read ?tx1 ws (base + N * sizeof_ptr TYPE('w)) (N - 1) N
                (make_mask 0 off)
      = (Inl OutOfBounds,
         ?tx1\<lparr>accesses := accesses ?tx1 @ [TMRead (base + N * sizeof_ptr TYPE('w)) (make_mask 0 off)]\<rparr>)"
    using lenws assms(2) by (simp add: read_word_nohit [OF assms(1)])
  have cond: "(N > 1 \<and> off \<noteq> 0) = True"
    using assms(2,4) by simp
  have "read_words sz raw ReadAlignedWord_Read N tx words base off
      = read_word raw ReadAlignedWord_Read ?tx1 ws (base + N * sizeof_ptr TYPE('w)) (N - 1) N
          (make_mask 0 off)"
    unfolding read_words_def Let_def first prod.case sum.case ws(2) cond if_True ..
  also note last
  finally show ?thesis by simp
qed

lemma map_upt_from_0:
  "0 < N \<Longrightarrow> b # map (\<lambda>k. b + k * W) [Suc 0..<N] = map (\<lambda>k. b + k * (W :: nat)) [0..<N]"
  by (simp add: upt_conv_Cons)

lemma skipped_word_not_issued:
  assumes "0 < W" and "2 \<le> N"
  shows "base + (N - 1) * W \<notin> set (map (\<lambda>k. base + k * W) [0..<N - 1] @ [base + N * W])"
proof -
  have "(N - 1) * W \<noteq> N * W"
    using assms by (cases N) simp_all
  moreover have "\<And>k. k < N - 1 \<Longrightarrow> (N - 1) * W \<noteq> k * W"
    using assms(1) by simp
  ultimately show ?thesis by auto
qed

text \<open>
  \<open>ReadUnaligned\<close> and \<open>WriteUnaligned\<close> of \<open>libitm-5.12.cpp\<close>, which keep a
  buffer of \<open>N + 1\<close> words for a type of \<open>N\<close> words, do issue the contiguous
  addresses \<open>base, base + 1, ..., base + N\<close>.
\<close>

lemma ReadUnaligned_addresses:
  fixes tx :: "'w::len word TxThread"
  assumes "1 \<le> N"
  shows "map access_addr (drop (length (calls tx)) (calls (snd (ReadUnaligned N sz tx addr offset))))
     = map (\<lambda>k. base_of TYPE('w) addr + k * sizeof_ptr TYPE('w)) [0..<N + 1]"
  using assms by (simp add: ReadUnaligned_calls comp_def map_upt_from_0)

lemma WriteUnaligned_addresses:
  fixes tx :: "'w::len word TxThread"
  assumes "1 \<le> N" and "offset + length val \<le> (N + 1) * sizeof_ptr TYPE('w)"
  shows "\<exists>tx'. WriteUnaligned N tx addr val offset = Inr tx' \<and>
     map access_addr (drop (length (calls tx)) (calls tx'))
     = map (\<lambda>k. base_of TYPE('w) addr + k * sizeof_ptr TYPE('w)) [0..<N + 1]"
  using assms(1) by (simp add: WriteUnaligned_eq [OF assms(2)] Let_def comp_def map_upt_from_0)

text \<open>
  Claim C4 asks that the word addresses of a multiword access be \<open>base\<close>,
  \<open>base + 1\<close>, ... with none skipped. \<open>read\<close> and \<open>write\<close> of \<open>inst.hpp\<close> do not
  do that at an address that is not word-aligned: with a buffer of \<open>N \<ge> 2\<close> words and a
  read-after-write policy that never hits, they issue the first word at \<open>base\<close>, the
  middle words at \<open>base + 1 .. base + N - 2\<close>, and the last word at \<open>base + N\<close>. The
  word at \<open>base + N - 1\<close>, which holds the end of the value, is not accessed, and the
  read then merges into \<open>words[N]\<close>, one past the end of its buffer.
\<close>

theorem inst_words_skip_an_address:
  fixes stx :: "'w::len word TX"
  assumes "8 dvd LENGTH('w)" and "\<And>a s m. \<not> fst (hit raw a s m)" and "\<not> prefilter addr"
    and "2 \<le> length words" and "OffsetOf TYPE('w) addr \<noteq> 0"
    and "OffsetOf TYPE('w) addr + length val \<le> length words * sizeof_ptr TYPE('w)"
  shows "fst (inst_read sz prefilter raw False stx mem words addr) = Inl OutOfBounds
       \<and> map access_addr (drop (length (accesses stx))
            (accesses (snd (inst_read sz prefilter raw False stx mem words addr))))
          = map (\<lambda>k. BaseOf TYPE('w) addr + k * sizeof_ptr TYPE('w)) [0..<length words - 1]
              @ [BaseOf TYPE('w) addr + length words * sizeof_ptr TYPE('w)]
       \<and> (\<exists>stx'. inst_write prefilter stx mem words addr val = Inr (stx', mem)
            \<and> map access_addr (drop (length (accesses stx)) (accesses stx'))
               = map (\<lambda>k. BaseOf TYPE('w) addr + k * sizeof_ptr TYPE('w)) [0..<length words - 1]
                   @ [BaseOf TYPE('w) addr + length words * sizeof_ptr TYPE('w)])
       \<and> BaseOf TYPE('w) addr + (length words - 1) * sizeof_ptr TYPE('w)
            \<notin> set (map (\<lambda>k. BaseOf TYPE('w) addr + k * sizeof_ptr TYPE('w)) [0..<length words - 1]
                     @ [BaseOf TYPE('w) addr + length words * sizeof_ptr TYPE('w)])"
proof -
  let ?W = "sizeof_ptr TYPE('w)"
  let ?N = "length words"
  let ?base = "BaseOf TYPE('w) addr"
  let ?off = "OffsetOf TYPE('w) addr"
  have W: "0 < ?W" using assms(1) by (rule sizeof_ptr_pos)
  note rw = read_words_nohit [OF assms(2) assms(4) refl assms(5), of sz stx ?base]
  have r: "inst_read sz prefilter raw False stx mem words addr =
       (Inl OutOfBounds,
        stx\<lparr>accesses := accesses stx
           @ TMRead ?base (make_mask ?off (min_size ?W (?off + sz)))
           # map (\<lambda>k. TMRead (?base + k * ?W) (make_mask 0 ?W)) [1..<?N - 1]
           @ [TMRead (?base + ?N * ?W) (make_mask 0 ?off)]\<rparr>)"
    using assms(3) by (simp add: inst_read_def Let_def rw)
  have c1: "fst (inst_read sz prefilter raw False stx mem words addr) = Inl OutOfBounds"
    by (simp add: r)
  have c2: "map access_addr (drop (length (accesses stx))
            (accesses (snd (inst_read sz prefilter raw False stx mem words addr))))
          = map (\<lambda>k. ?base + k * ?W) [0..<?N - 1] @ [?base + ?N * ?W]"
    using assms(4) by (simp add: r comp_def map_upt_from_0)
  have ne: "words \<noteq> []" using assms(4) by auto
  have c3: "\<exists>stx'. inst_write prefilter stx mem words addr val = Inr (stx', mem)
            \<and> map access_addr (drop (length (accesses stx)) (accesses stx'))
               = map (\<lambda>k. ?base + k * ?W) [0..<?N - 1] @ [?base + ?N * ?W]"
    using assms(4,5)
    by (simp add: inst_write_eq [where prefilter = prefilter and addr = addr, OF assms(3) ne assms(6)]
        Let_def comp_def map_upt_from_0)
  note c4 = skipped_word_not_issued [OF W assms(4), of ?base]
  from c1 c2 c3 c4 show ?thesis by blast
qed

text \<open>
  Eight bytes at offset 4 of the 64-bit word at \<open>0x1000\<close>, buffer of two words: the
  accesses go to \<open>0x1000\<close> and \<open>0x1010\<close>, not to \<open>0x1008\<close>.
\<close>

theorem inst_words_skip_an_address_witness:
  "fst (inst_read 8 (\<lambda>a. False) NoRAW False
          \<lparr>alg_tm_read_aligned_word = (\<lambda>a m. 0 :: 64 word),
           alg_tm_read_aligned_word_ro = (\<lambda>a m. 0), accesses = []\<rparr>
          (\<lambda>a. 0) [0x1111111111111111, 0x2222222222222222] 0x1004) = Inl OutOfBounds
   \<and> map access_addr (accesses (snd (inst_read 8 (\<lambda>a. False) NoRAW False
          \<lparr>alg_tm_read_aligned_word = (\<lambda>a m. 0 :: 64 word),
           alg_tm_read_aligned_word_ro = (\<lambda>a m. 0), accesses = []\<rparr>
          (\<lambda>a. 0) [0x1111111111111111, 0x2222222222222222] 0x1004)))
       = [0x1000, 0x1010]
   \<and> (\<exists>stx'. inst_write (\<lambda>a. False)
          \<lparr>alg_tm_read_aligned_word = (\<lambda>a m. 0 :: 64 word),
           alg_tm_read_aligned_word_ro = (\<lambda>a m. 0), accesses = []\<rparr>
          (\<lambda>a. 0) [0x1111111111111111, 0x2222222222222222] 0x1004 [1, 2, 3, 4, 5, 6, 7, 8]
        = Inr (stx', (\<lambda>a. 0))
        \<and> map access_addr (accesses stx') = [0x1000, 0x1010])
   \<and> (0x1008 :: addr) \<notin> set [0x1000, 0x1010]"
proof -
  let ?stx = "\<lparr>alg_tm_read_aligned_word = (\<lambda>a m. 0 :: 64 word),
               alg_tm_read_aligned_word_ro = (\<lambda>a m. 0), accesses = []\<rparr>"
  have W: "sizeof_ptr TYPE(64) = 8"
    by (simp add: sizeof_ptr_def)
  have off: "OffsetOf TYPE(64) 0x1004 = 4"
    by (simp add: OffsetOf_def W)
  have base: "BaseOf TYPE(64) 0x1004 = 0x1000"
    by (simp add: BaseOf_def W)
  have h1: "8 dvd LENGTH(64)" by simp
  have h2: "\<And>a s m. \<not> fst (hit (NoRAW :: 64 word RAW) a s m)" by (simp add: NoRAW_def)
  have h3: "\<not> (\<lambda>a :: addr. False) 0x1004" by simp
  have h4: "2 \<le> length [0x1111111111111111, 0x2222222222222222 :: 64 word]" by simp
  have h5: "OffsetOf TYPE(64) 0x1004 \<noteq> 0" by (simp add: off)
  have h6: "OffsetOf TYPE(64) 0x1004 + length [1, 2, 3, 4, 5, 6, 7, 8 :: byte]
             \<le> length [0x1111111111111111, 0x2222222222222222 :: 64 word] * sizeof_ptr TYPE(64)"
    by (simp add: off W)
  note t = inst_words_skip_an_address [where prefilter = "\<lambda>a. False" and addr = "0x1004"
      and stx = ?stx and mem = "\<lambda>a. 0" and sz = 8, OF h1 h2 h3 h4 h5 h6]
  show ?thesis
    using t unfolding off W base by (simp add: upt_conv_Cons)
qed

section \<open>Bytes of words and of buffers\<close>

lemma bit_word_of_bytes:
  "bit (word_of_bytes bs :: 'w::len word) n \<longleftrightarrow>
     n < LENGTH('w) \<and> n div 8 < length bs \<and> bit (bs ! (n div 8)) (n mod 8)"
proof (induction bs arbitrary: n)
  case Nil
  then show ?case by simp
next
  case (Cons b bs)
  show ?case
  proof (cases "n < 8")
    case True
    then show ?thesis
      by (auto simp add: bit_simps)
  next
    case False
    then have d: "n div 8 = Suc ((n - 8) div 8)" and m: "(n - 8) mod 8 = n mod 8"
      by (simp_all add: le_div_geq le_mod_geq)
    have nb: "\<not> bit (ucast b :: 'w word) n"
      using False by (auto simp add: bit_simps dest: bit_imp_le_length)
    show ?thesis
      using False nb by (auto simp add: bit_or_iff bit_push_bit_iff Cons.IH d m)
  qed
qed

lemma byte_of_word_of_bytes:
  assumes "k < length bs" and "8 * length bs \<le> LENGTH('w::len)"
  shows "byte_of (word_of_bytes bs :: 'w word) k = bs ! k"
proof (rule bit_word_eqI)
  fix m
  assume "m < LENGTH(8)"
  then have m: "m < 8" by simp
  have "8 * k + m < LENGTH('w)" using assms m by simp
  then show "bit (byte_of (word_of_bytes bs :: 'w word) k) m = bit (bs ! k) m"
    using m assms(1) by (simp add: bit_byte_of bit_word_of_bytes)
qed

lemma sizeof_ptr_bits: "8 dvd LENGTH('w::len) \<Longrightarrow> 8 * sizeof_ptr TYPE('w) = LENGTH('w)"
  by (auto simp add: sizeof_ptr_def elim: dvdE)

lemma word_of_bytes_of_word:
  assumes "8 dvd LENGTH('w::len)"
  shows "word_of_bytes (bytes_of_word w) = (w :: 'w word)"
proof (rule bit_word_eqI)
  fix n
  assume n: "n < LENGTH('w)"
  then have d: "n div 8 < sizeof_ptr TYPE('w)"
    using sizeof_ptr_bits [OF assms] by (simp add: sizeof_ptr_def less_mult_imp_div_less mult.commute)
  show "bit (word_of_bytes (bytes_of_word w) :: 'w word) n = bit w n"
    using n d by (simp add: bit_word_of_bytes bytes_of_word_def bit_byte_of)
qed

lemma bytes_of_word_of_bytes:
  assumes "8 dvd LENGTH('w::len)" and "length bs = sizeof_ptr TYPE('w)"
  shows "bytes_of_word (word_of_bytes bs :: 'w word) = bs"
proof (rule nth_equalityI)
  show "length (bytes_of_word (word_of_bytes bs :: 'w word)) = length bs"
    using assms(2) by simp
next
  fix i
  assume "i < length (bytes_of_word (word_of_bytes bs :: 'w word))"
  then have i: "i < length bs" using assms(2) by simp
  have "8 * length bs \<le> LENGTH('w)"
    using sizeof_ptr_bits [OF assms(1)] assms(2) by simp
  then show "bytes_of_word (word_of_bytes bs :: 'w word) ! i = bs ! i"
    using i assms(2) by (simp add: bytes_of_word_def byte_of_word_of_bytes)
qed

lemma byte_of_and: "byte_of (x AND y) k = byte_of x k AND byte_of y k"
  by (rule bit_word_eqI) (auto simp add: bit_byte_of bit_and_iff)

lemma byte_of_or: "byte_of (x OR y) k = byte_of x k OR byte_of y k"
  by (rule bit_word_eqI) (auto simp add: bit_byte_of bit_or_iff)

lemma byte_of_not:
  assumes "8 * k + 8 \<le> LENGTH('w::len)"
  shows "byte_of (NOT x :: 'w word) k = NOT (byte_of x k)"
proof (rule bit_word_eqI)
  fix m
  assume "m < LENGTH(8)"
  then have m: "m < 8" by simp
  then have "8 * k + m < LENGTH('w)" using assms by simp
  then show "bit (byte_of (NOT x) k) m = bit (NOT (byte_of x k)) m"
    using m by (simp add: bit_byte_of bit_not_iff)
qed

lemma nth_bytes_of_words:
  fixes ws :: "'w::len word list"
  assumes "0 < sizeof_ptr TYPE('w)" and "p < length ws * sizeof_ptr TYPE('w)"
  shows "bytes_of_words ws ! p = byte_of (ws ! (p div sizeof_ptr TYPE('w))) (p mod sizeof_ptr TYPE('w))"
  using assms(2)
proof (induction ws arbitrary: p)
  case Nil
  then show ?case by simp
next
  case (Cons w ws)
  let ?W = "sizeof_ptr TYPE('w)"
  have bw: "bytes_of_words (w # ws) = bytes_of_word w @ bytes_of_words ws"
    by (simp add: bytes_of_words_def)
  show ?case
  proof (cases "p < ?W")
    case True
    then show ?thesis
      by (simp add: bw nth_append bytes_of_word_def)
  next
    case False
    then have d: "p div ?W = Suc ((p - ?W) div ?W)" and m: "(p - ?W) mod ?W = p mod ?W"
      using assms(1) by (simp_all add: le_div_geq le_mod_geq)
    have "p - ?W < length ws * ?W" using Cons.prems False by simp
    then show ?thesis
      using False by (simp add: bw nth_append Cons.IH d m)
  qed
qed

lemma read_loop_eq:
  "i \<le> N \<Longrightarrow> N \<le> length buf \<Longrightarrow>
   read_loop tx base m N i buf =
     (take i buf @ map (\<lambda>k. tmread_result tx (base + k * sizeof_ptr TYPE('w)) m) [i..<N] @ drop N buf,
      tx\<lparr>calls := calls tx @ map (\<lambda>k. TMRead (base + k * sizeof_ptr TYPE('w)) m) [i..<N]\<rparr>)"
  for tx :: "'w::len word TxThread"
proof (induction tx base m N i buf rule: read_loop.induct)
  case (1 tx base m N i buf)
  show ?case
  proof (cases "i < N")
    case True
    let ?w = "tmread_result tx (base + i * sizeof_ptr TYPE('w)) m"
    let ?tx' = "tx\<lparr>calls := calls tx @ [TMRead (base + i * sizeof_ptr TYPE('w)) m]\<rparr>"
    have tm: "tmread tx (base + i * sizeof_ptr TYPE('w)) m = (?w, ?tx')"
      by (simp add: tmread_def)
    have step: "read_loop tx base m N i buf = read_loop ?tx' base m N (Suc i) (buf[i := ?w])"
      using True by (subst read_loop.simps) (simp add: tm)
    have IH: "read_loop ?tx' base m N (Suc i) (buf[i := ?w]) =
       (take (Suc i) (buf[i := ?w]) @ map (\<lambda>k. tmread_result ?tx' (base + k * sizeof_ptr TYPE('w)) m) [Suc i..<N] @ drop N (buf[i := ?w]),
        ?tx'\<lparr>calls := calls ?tx' @ map (\<lambda>k. TMRead (base + k * sizeof_ptr TYPE('w)) m) [Suc i..<N]\<rparr>)"
      using True "1.prems" by (intro "1.IH"[OF True tm[symmetric]]) simp_all
    have t: "take (Suc i) (buf[i := ?w]) = take i buf @ [?w]"
      using True "1.prems" by (simp add: take_Suc_conv_app_nth)
    have d: "drop N (buf[i := ?w]) = drop N buf"
      using True by simp
    have u: "[i..<N] = i # [Suc i..<N]"
      using True by (simp add: upt_conv_Cons)
    show ?thesis
      unfolding step IH t d u by simp
  next
    case False
    with "1.prems" have "i = N" by simp
    then show ?thesis
      by (subst read_loop.simps) simp
  qed
qed

lemma drop_Cons_replicate: "drop n (z # replicate n z) = [z]"
  by (induction n) simp_all

lemma read_loop_from_1:
  fixes tx :: "'w::len word TxThread"
  shows "read_loop tx base m (Suc n) (Suc 0) (a # z # replicate n z) =
     (a # map (\<lambda>k. tmread_result tx (base + k * sizeof_ptr TYPE('w)) m) [Suc 0..<Suc n] @ [z],
      tx\<lparr>calls := calls tx @ map (\<lambda>k. TMRead (base + k * sizeof_ptr TYPE('w)) m) [Suc 0..<Suc n]\<rparr>)"
proof -
  have "read_loop tx base m (Suc n) (Suc 0) (a # z # replicate n z) =
     (take (Suc 0) (a # z # replicate n z)
        @ map (\<lambda>k. tmread_result tx (base + k * sizeof_ptr TYPE('w)) m) [Suc 0..<Suc n]
        @ drop (Suc n) (a # z # replicate n z),
      tx\<lparr>calls := calls tx @ map (\<lambda>k. TMRead (base + k * sizeof_ptr TYPE('w)) m) [Suc 0..<Suc n]\<rparr>)"
    by (intro read_loop_eq) simp_all
  then show ?thesis
    by (simp add: drop_Cons_replicate)
qed

lemma ReadUnaligned_words:
  fixes tx :: "'w::len word TxThread"
  shows "fst (ReadUnaligned (Suc n) sz tx addr offset) =
     load_T (bytes_of_words
        (tmread_result tx (base_of TYPE('w) addr) (make_mask offset (sizeof_ptr TYPE('w)))
         # map (\<lambda>k. tmread_result tx (base_of TYPE('w) addr + k * sizeof_ptr TYPE('w))
                    (make_mask 0 (sizeof_ptr TYPE('w)))) [Suc 0..<Suc n]
         @ [tmread_result tx (base_of TYPE('w) addr + Suc n * sizeof_ptr TYPE('w)) (make_mask 0 offset)]))
        offset sz"
  by (simp add: ReadUnaligned_def Let_def tmread_def split_beta read_loop_from_1 list_update_append
      del: upt_Suc)

lemma unaligned_words_map:
  "f (make_mask offset (sizeof_ptr TYPE('w))) 0
         # map (\<lambda>k. f (make_mask 0 (sizeof_ptr TYPE('w))) k) [Suc 0..<Suc n]
         @ [f (make_mask 0 offset) (Suc n)]
       = map (\<lambda>k. f (unaligned_mask (Suc n) offset k :: 'w::len word) k) [0..<Suc (Suc n)]"
proof -
  have "map (\<lambda>k. f (make_mask 0 (sizeof_ptr TYPE('w))) k) [Suc 0..<Suc n]
      = map (\<lambda>k. f (unaligned_mask (Suc n) offset k :: 'w word) k) [Suc 0..<Suc n]"
    by (rule map_cong) (auto simp add: unaligned_mask_def)
  moreover have "[0..<Suc (Suc n)] = 0 # [Suc 0..<Suc n] @ [Suc n]"
    by (simp add: upt_conv_Cons)
  ultimately show ?thesis
    by (simp add: unaligned_mask_def del: upt_Suc)
qed

lemma ReadUnaligned_eq:
  fixes tx :: "'w::len word TxThread"
  assumes "1 \<le> N"
  shows "fst (ReadUnaligned N sz tx addr offset) =
     load_T (bytes_of_words
        (map (\<lambda>k. tmread_result tx (base_of TYPE('w) addr + k * sizeof_ptr TYPE('w))
                    (unaligned_mask N offset k)) [0..<N + 1])) offset sz"
proof -
  obtain n where N: "N = Suc n" using assms by (cases N) simp_all
  have "fst (ReadUnaligned (Suc n) sz tx addr offset) =
     load_T (bytes_of_words
        (map (\<lambda>k. tmread_result tx (base_of TYPE('w) addr + k * sizeof_ptr TYPE('w))
                    (unaligned_mask (Suc n) offset k)) [0..<Suc (Suc n)])) offset sz"
    unfolding ReadUnaligned_words
    using unaligned_words_map [of
      "\<lambda>m k. tmread_result tx (base_of TYPE('w) addr + k * sizeof_ptr TYPE('w)) m" offset n]
    by (simp del: upt_Suc)
  then show ?thesis by (simp add: N)
qed

lemma selected_byte_eq:
  assumes "x AND m = y AND m" and "byte_of m k = 0xFF"
  shows "byte_of x k = byte_of y k"
proof -
  have "byte_of (x AND m) k = byte_of (y AND m) k"
    using assms(1) by simp
  then have "byte_of x k AND 0xFF = byte_of y k AND 0xFF"
    by (simp add: byte_of_and assms(2))
  moreover have "(0xFF :: byte) = - 1" by simp
  ultimately show ?thesis by simp
qed

lemma unaligned_mask_bytes:
  assumes "8 dvd LENGTH('w::len)" and "1 \<le> N" and "0 < offset" and "offset < sizeof_ptr TYPE('w)"
    and "p < (N + 1) * sizeof_ptr TYPE('w)"
  shows "byte_of (unaligned_mask N offset (p div sizeof_ptr TYPE('w)) :: 'w word) (p mod sizeof_ptr TYPE('w))
       = (if offset \<le> p \<and> p < offset + N * sizeof_ptr TYPE('w) then 0xFF else 0x00)"
proof -
  let ?W = "sizeof_ptr TYPE('w)"
  have W: "0 < ?W" using assms(1) by (rule sizeof_ptr_pos)
  have m: "p mod ?W < ?W" using W by simp
  have dm: "p = p div ?W * ?W + p mod ?W" by simp
  have k: "p div ?W < N + 1"
    using assms(5) W by (simp add: less_mult_imp_div_less)
  consider "p div ?W = 0" | "0 < p div ?W" "p div ?W < N" | "p div ?W = N"
    using k by linarith
  then show ?thesis
  proof cases
    case 1
    then have pW: "p < ?W" using W by (simp add: div_eq_0_iff)
    have "?W \<le> N * ?W" using assms(2) by simp
    then have hi: "p < offset + N * ?W" using pW by linarith
    have pm: "p mod ?W = p" using pW by simp
    show ?thesis
      using assms(4) hi pW
      by (simp add: 1 pm unaligned_mask_def byte_of_make_mask [OF assms(1)])
  next
    case 2
    have lo: "?W \<le> p div ?W * ?W" using 2(1) by simp
    have "Suc (p div ?W) \<le> N" using 2(2) by simp
    then have "Suc (p div ?W) * ?W \<le> N * ?W" by (rule mult_le_mono1)
    then have hi: "p div ?W * ?W + ?W \<le> N * ?W" by simp
    have "offset \<le> p" using lo dm assms(4) by linarith
    moreover have "p < offset + N * ?W" using hi dm m by linarith
    ultimately show ?thesis
      using 2 W m by (simp add: unaligned_mask_def byte_of_make_mask [OF assms(1)])
  next
    case 3
    have p: "p = N * ?W + p mod ?W" using dm 3 by simp
    have "?W \<le> N * ?W" using assms(2) by simp
    then have lo: "offset \<le> p" using p assms(4) by linarith
    have iff: "p < offset + N * ?W \<longleftrightarrow> p mod ?W < offset" using p by linarith
    show ?thesis
      using 3 assms(2,3,4) lo iff
      by (simp add: unaligned_mask_def byte_of_make_mask [OF assms(1)])
  qed
qed

lemma selected_bytes_agree:
  fixes rd1 rd2 :: "addr \<Rightarrow> 'w::len word \<Rightarrow> 'w word"
  assumes "0 < sizeof_ptr TYPE('w)" and "\<And>a m. rd1 a m AND m = rd2 a m AND m"
    and "p < K * sizeof_ptr TYPE('w)"
    and "byte_of (mk (p div sizeof_ptr TYPE('w))) (p mod sizeof_ptr TYPE('w)) = 0xFF"
  shows "bytes_of_words (map (\<lambda>k. rd1 (b + k * sizeof_ptr TYPE('w)) (mk k)) [0..<K]) ! p
       = bytes_of_words (map (\<lambda>k. rd2 (b + k * sizeof_ptr TYPE('w)) (mk k)) [0..<K]) ! p"
proof -
  let ?W = "sizeof_ptr TYPE('w)"
  have k: "p div ?W < K"
    using assms(1,3) by (simp add: less_mult_imp_div_less)
  show ?thesis
    using k assms(3)
    by (simp add: nth_bytes_of_words [OF assms(1)] selected_byte_eq [OF assms(2) assms(4)])
qed

lemma load_T_agree:
  fixes rd1 rd2 :: "addr \<Rightarrow> 'w::len word \<Rightarrow> 'w word"
  assumes "0 < sizeof_ptr TYPE('w)" and "\<And>a m. rd1 a m AND m = rd2 a m AND m"
    and "\<And>p. off \<le> p \<Longrightarrow> p < off + sz \<Longrightarrow> p < K * sizeof_ptr TYPE('w) \<Longrightarrow>
           byte_of (mk (p div sizeof_ptr TYPE('w))) (p mod sizeof_ptr TYPE('w)) = 0xFF"
  shows "load_T (bytes_of_words (map (\<lambda>k. rd1 (b + k * sizeof_ptr TYPE('w)) (mk k)) [0..<K])) off sz
       = load_T (bytes_of_words (map (\<lambda>k. rd2 (b + k * sizeof_ptr TYPE('w)) (mk k)) [0..<K])) off sz"
proof (cases "off + sz \<le> K * sizeof_ptr TYPE('w)")
  case False
  then show ?thesis by (simp add: load_T_def)
next
  case True
  let ?W = "sizeof_ptr TYPE('w)"
  let ?b1 = "bytes_of_words (map (\<lambda>k. rd1 (b + k * ?W) (mk k)) [0..<K])"
  let ?b2 = "bytes_of_words (map (\<lambda>k. rd2 (b + k * ?W) (mk k)) [0..<K])"
  have "take sz (drop off ?b1) = take sz (drop off ?b2)"
  proof (rule nth_equalityI)
    show "length (take sz (drop off ?b1)) = length (take sz (drop off ?b2))" by simp
  next
    fix i
    assume "i < length (take sz (drop off ?b1))"
    then have i: "i < sz" "off + i < K * ?W" using True by simp_all
    have "?b1 ! (off + i) = ?b2 ! (off + i)"
      using i by (intro selected_bytes_agree [OF assms(1,2)] assms(3)) simp_all
    then show "take sz (drop off ?b1) ! i = take sz (drop off ?b2) ! i"
      using i True by simp
  qed
  then show ?thesis using True by (simp add: load_T_def)
qed

lemma INST_N_true_Read_eq:
  fixes tx :: "'w::len word TxThread"
  shows "fst (INST_N_true_Read N sz tx addr) =
     (if sz \<le> N * sizeof_ptr TYPE('w)
      then load_T (bytes_of_words
             (map (\<lambda>k. tmread_result tx (addr + k * sizeof_ptr TYPE('w))
                         (make_mask 0 (sizeof_ptr TYPE('w)))) [0..<N])) 0 sz
      else Inl Indeterminate)"
  by (simp add: INST_N_true_Read_def Let_def read_loop_eq)

lemma INST_0_true_Read_eq:
  fixes tx :: "'w::len word TxThread"
  shows "fst (INST_0_true_Read sz tx addr) =
     load_T (bytes_of_words
        (map (\<lambda>k. tmread_result tx (base_of TYPE('w) addr + k * sizeof_ptr TYPE('w))
                    (make_mask (offset_of TYPE('w) addr) (offset_of TYPE('w) addr + sz))) [0..<1]))
       (offset_of TYPE('w) addr) sz"
  by (simp add: INST_0_true_Read_def Let_def tmread_def bytes_of_words_def)

lemma ReadUnaligned_agree:
  fixes tx1 tx2 :: "'w::len word TxThread"
  assumes "8 dvd LENGTH('w)"
    and "\<And>a m. tmread_result tx1 a m AND m = tmread_result tx2 a m AND m"
    and "1 \<le> N" and "0 < offset" and "offset < sizeof_ptr TYPE('w)"
    and "sz \<le> N * sizeof_ptr TYPE('w)"
  shows "fst (ReadUnaligned N sz tx1 addr offset) = fst (ReadUnaligned N sz tx2 addr offset)"
  unfolding ReadUnaligned_eq [OF assms(3)]
proof (rule load_T_agree [OF sizeof_ptr_pos [OF assms(1)] assms(2)])
  fix p
  assume p: "offset \<le> p" "p < offset + sz" "p < (N + 1) * sizeof_ptr TYPE('w)"
  then have "p < offset + N * sizeof_ptr TYPE('w)" using assms(6) by linarith
  then show "byte_of (unaligned_mask N offset (p div sizeof_ptr TYPE('w)) :: 'w word)
               (p mod sizeof_ptr TYPE('w)) = 0xFF"
    using p(1) by (simp add: unaligned_mask_bytes [OF assms(1,3,4,5) p(3)])
qed

lemma INST_N_true_Read_agree:
  fixes tx1 tx2 :: "'w::len word TxThread"
  assumes "8 dvd LENGTH('w)"
    and "\<And>a m. tmread_result tx1 a m AND m = tmread_result tx2 a m AND m"
  shows "fst (INST_N_true_Read N sz tx1 addr) = fst (INST_N_true_Read N sz tx2 addr)"
proof -
  have W: "0 < sizeof_ptr TYPE('w)" using assms(1) by (rule sizeof_ptr_pos)
  have "load_T (bytes_of_words (map (\<lambda>k. tmread_result tx1 (addr + k * sizeof_ptr TYPE('w))
                 ((\<lambda>k. make_mask 0 (sizeof_ptr TYPE('w))) k)) [0..<N])) 0 sz
      = load_T (bytes_of_words (map (\<lambda>k. tmread_result tx2 (addr + k * sizeof_ptr TYPE('w))
                 ((\<lambda>k. make_mask 0 (sizeof_ptr TYPE('w))) k)) [0..<N])) 0 sz"
  proof (rule load_T_agree [OF W assms(2)])
    fix p
    show "byte_of ((\<lambda>k. make_mask 0 (sizeof_ptr TYPE('w)) :: 'w word) (p div sizeof_ptr TYPE('w)))
               (p mod sizeof_ptr TYPE('w)) = 0xFF"
      using W by (simp add: byte_of_make_mask [OF assms(1)])
  qed
  then show ?thesis
    by (simp add: INST_N_true_Read_eq)
qed

lemma INST_0_true_Read_agree:
  fixes tx1 tx2 :: "'w::len word TxThread"
  assumes "8 dvd LENGTH('w)"
    and "\<And>a m. tmread_result tx1 a m AND m = tmread_result tx2 a m AND m"
  shows "fst (INST_0_true_Read sz tx1 addr) = fst (INST_0_true_Read sz tx2 addr)"
proof (cases "offset_of TYPE('w) addr + sz \<le> sizeof_ptr TYPE('w)")
  case False
  then show ?thesis
    by (simp add: INST_0_true_Read_def Let_def tmread_def load_T_def)
next
  case True
  let ?W = "sizeof_ptr TYPE('w)"
  let ?off = "offset_of TYPE('w) addr"
  have W: "0 < ?W" using assms(1) by (rule sizeof_ptr_pos)
  have "load_T (bytes_of_words (map (\<lambda>k. tmread_result tx1 (base_of TYPE('w) addr + k * ?W)
                 ((\<lambda>k. make_mask ?off (?off + sz)) k)) [0..<1])) ?off sz
      = load_T (bytes_of_words (map (\<lambda>k. tmread_result tx2 (base_of TYPE('w) addr + k * ?W)
                 ((\<lambda>k. make_mask ?off (?off + sz)) k)) [0..<1])) ?off sz"
  proof (rule load_T_agree [OF W assms(2)])
    fix p
    assume p: "?off \<le> p" "p < ?off + sz" "p < 1 * ?W"
    then have lt: "?off < ?off + sz" by linarith
    have pm: "p mod ?W = p" using p(3) by simp
    show "byte_of ((\<lambda>k. make_mask ?off (?off + sz) :: 'w word) (p div ?W)) (p mod ?W) = 0xFF"
      using p(1,2) by (simp add: pm byte_of_make_mask [OF assms(1) lt True])
  qed
  then show ?thesis
    unfolding INST_0_true_Read_eq by simp
qed

text \<open>
  Claim C10. The value that the read barrier \<open>INST<T>::Read\<close> returns depends only on
  the bytes that the masks select in the words the primitive returns: if two descriptors
  return, for every address and mask, words that agree on the bytes selected by the mask,
  the barrier returns the same value under both, whatever the other bytes are. This
  covers the subword, the aligned and the unaligned path, for a type that is smaller than
  a word or a whole number of words, as every type of the ABI is.
\<close>

theorem read_depends_on_selected_bytes:
  fixes tx1 tx2 :: "'w::len word TxThread"
  assumes "8 dvd LENGTH('w)"
    and "sz < sizeof_ptr TYPE('w) \<or> sizeof_ptr TYPE('w) dvd sz"
    and "\<And>a m. tmread_result tx1 a m AND m = tmread_result tx2 a m AND m"
  shows "fst (INST_Read A sz tx1 addr) = fst (INST_Read A sz tx2 addr)"
proof -
  let ?W = "sizeof_ptr TYPE('w)"
  let ?off = "offset_of TYPE('w) addr"
  let ?N = "sz div ?W"
  have W: "0 < ?W" using assms(1) by (rule sizeof_ptr_pos)
  have off: "?off < ?W" using assms(1) by (rule offset_of_less)
  show ?thesis
  proof (cases "?N = 0")
    case True
    then have sz: "sz < ?W" using W by (simp add: div_eq_0_iff)
    show ?thesis
    proof (cases "A \<or> ?off + sz \<le> ?W")
      case True
      then show ?thesis
        using \<open>?N = 0\<close>
        by (auto simp add: INST_Read_def INST_0_false_Read_def Let_def
            INST_0_true_Read_agree [OF assms(1,3)])
    next
      case False
      then have pos: "0 < ?off" using sz by linarith
      have le: "sz \<le> 1 * ?W" using sz by simp
      note ru = ReadUnaligned_agree [OF assms(1,3) order_refl pos off le, of addr]
      show ?thesis
        using False \<open>?N = 0\<close> ru
        by (simp add: INST_Read_def INST_0_false_Read_def Let_def)
    qed
  next
    case False
    then have "\<not> sz < ?W" using W by (simp add: div_eq_0_iff)
    then have "?W dvd sz" using assms(2) by simp
    then have sz: "sz \<le> ?N * ?W" by simp
    have N: "1 \<le> ?N" using False by simp
    show ?thesis
    proof (cases "A \<or> ?off = 0")
      case True
      then show ?thesis
        using False
        by (auto simp add: INST_Read_def INST_N_false_Read_def Let_def
            INST_N_true_Read_agree [OF assms(1,3)])
    next
      case False
      then have pos: "0 < ?off" by simp
      show ?thesis
        using False \<open>?N \<noteq> 0\<close>
        by (simp add: INST_Read_def INST_N_false_Read_def Let_def
            ReadUnaligned_agree [OF assms(1,3) N pos off sz])
    qed
  qed
qed

text \<open>
  Four bytes at offset 6 of a 64-bit word, read once from a primitive that clears the
  bytes outside the mask and once from one that leaves them.
\<close>

theorem read_depends_on_selected_bytes_witness:
  "fst (INST_Read False 4 \<lparr>tmread_result = (\<lambda>a m. 0x1122334455667788 AND m :: 64 word), calls = []\<rparr> 0x1006)
     = fst (INST_Read False 4 \<lparr>tmread_result = (\<lambda>a m. 0x1122334455667788 :: 64 word), calls = []\<rparr> 0x1006)"
proof -
  have h1: "8 dvd LENGTH(64)" by simp
  have h2: "4 < sizeof_ptr TYPE(64) \<or> sizeof_ptr TYPE(64) dvd 4" by (simp add: sizeof_ptr_def)
  have h3: "\<And>a m. tmread_result \<lparr>tmread_result = (\<lambda>a m. 0x1122334455667788 AND m :: 64 word), calls = []\<rparr> a m AND m
      = tmread_result \<lparr>tmread_result = (\<lambda>a m. 0x1122334455667788 :: 64 word), calls = []\<rparr> a m AND m"
    by (simp add: and.assoc)
  show ?thesis
    by (rule read_depends_on_selected_bytes [OF h1 h2 h3])
qed

section \<open>The round trip\<close>

lemma byte_of_load_word:
  assumes "8 dvd LENGTH('w::len)" and "j < sizeof_ptr TYPE('w)"
  shows "byte_of (load_word mem a :: 'w word) j = mem (a + j)"
proof -
  have "8 * length (load_mem mem a (sizeof_ptr TYPE('w))) \<le> LENGTH('w)"
    using sizeof_ptr_bits [OF assms(1)] by (simp add: load_mem_def)
  then show ?thesis
    using assms(2) by (simp add: load_word_def byte_of_word_of_bytes load_mem_def)
qed

lemma masked_write_byte:
  fixes v m :: "'w::len word"
  assumes "8 dvd LENGTH('w)"
    and "\<And>k. k < sizeof_ptr TYPE('w) \<Longrightarrow> byte_of m k = 0xFF \<or> byte_of m k = 0x00"
  shows "masked_write mem a v m x =
     (if a \<le> x \<and> x < a + sizeof_ptr TYPE('w) \<and> byte_of m (x - a) = 0xFF
      then byte_of v (x - a) else mem x)"
proof (cases "a \<le> x \<and> x < a + sizeof_ptr TYPE('w)")
  case False
  then show ?thesis
    by (auto simp add: masked_write_def store_mem_def)
next
  case True
  let ?k = "x - a"
  have k: "?k < sizeof_ptr TYPE('w)" using True by linarith
  have bits: "8 * ?k + 8 \<le> LENGTH('w)"
    using k sizeof_ptr_bits [OF assms(1)] by linarith
  have old: "byte_of (load_word mem a :: 'w word) ?k = mem x"
    using True by (simp add: byte_of_load_word [OF assms(1) k])
  have "masked_write mem a v m x
      = byte_of ((load_word mem a AND NOT m) OR (v AND m)) ?k"
    using True k by (simp add: masked_write_def store_mem_def bytes_of_word_def)
  also have "\<dots> = (mem x AND NOT (byte_of m ?k)) OR (byte_of v ?k AND byte_of m ?k)"
    by (simp add: byte_of_or byte_of_and byte_of_not [OF bits] old)
  finally have eq: "masked_write mem a v m x
      = (mem x AND NOT (byte_of m ?k)) OR (byte_of v ?k AND byte_of m ?k)" .
  have ff: "(0xFF :: byte) = - 1" by simp
  from assms(2) [OF k] show ?thesis
  proof
    assume "byte_of m ?k = 0xFF"
    then show ?thesis using True by (simp add: eq ff)
  next
    assume z: "byte_of m ?k = 0x00"
    then show ?thesis using True by (simp add: eq)
  qed
qed

lemma byte_of_words_of_bytes:
  fixes buf :: "byte list"
  assumes "8 dvd LENGTH('w::len)" and "length buf = K * sizeof_ptr TYPE('w)"
    and "p < K * sizeof_ptr TYPE('w)"
  shows "byte_of ((words_of_bytes buf :: 'w word list) ! (p div sizeof_ptr TYPE('w)))
           (p mod sizeof_ptr TYPE('w)) = buf ! p"
proof -
  let ?W = "sizeof_ptr TYPE('w)"
  let ?k = "p div ?W"
  have W: "0 < ?W" using assms(1) by (rule sizeof_ptr_pos)
  have k: "?k < K" using assms(3) W by (simp add: less_mult_imp_div_less)
  have "Suc ?k \<le> K" using k by simp
  then have "Suc ?k * ?W \<le> K * ?W" by (rule mult_le_mono1)
  then have fit: "?k * ?W + ?W \<le> length buf" using assms(2) by simp
  have len: "length (take ?W (drop (?k * ?W) buf)) = ?W"
    using fit by simp
  have bits: "8 * length (take ?W (drop (?k * ?W) buf)) \<le> LENGTH('w)"
    unfolding len using sizeof_ptr_bits [OF assms(1)] by simp
  have m: "p mod ?W < length (take ?W (drop (?k * ?W) buf))"
    unfolding len using W by simp
  have kdiv: "?k < length buf div ?W" using k assms(2) W by simp
  have "byte_of ((words_of_bytes buf :: 'w word list) ! ?k) (p mod ?W)
      = take ?W (drop (?k * ?W) buf) ! (p mod ?W)"
    using kdiv by (simp add: words_of_bytes_def byte_of_word_of_bytes [OF m bits])
  also have "\<dots> = buf ! (?k * ?W + p mod ?W)"
    using W fit by simp
  finally show ?thesis by simp
qed

lemma replay_snoc: "replay mem (cs @ [c]) = apply_access (replay mem cs) c"
  by (simp add: replay_def)

lemma replay_append: "replay mem (cs @ ds) = replay (replay mem cs) ds"
  by (simp add: replay_def)

lemma replay_words:
  fixes ws :: "'w::len word list" and mk :: "nat \<Rightarrow> 'w word"
  assumes "8 dvd LENGTH('w)"
    and "\<And>k j. k < K \<Longrightarrow> j < sizeof_ptr TYPE('w) \<Longrightarrow>
           byte_of (mk k) j = 0xFF \<or> byte_of (mk k) j = 0x00"
  shows "replay mem (map (\<lambda>k. TMWrite (b + k * sizeof_ptr TYPE('w)) (ws ! k) (mk k)) [0..<K]) x =
      (if b \<le> x \<and> x < b + K * sizeof_ptr TYPE('w)
          \<and> byte_of (mk ((x - b) div sizeof_ptr TYPE('w))) ((x - b) mod sizeof_ptr TYPE('w)) = 0xFF
       then byte_of (ws ! ((x - b) div sizeof_ptr TYPE('w))) ((x - b) mod sizeof_ptr TYPE('w))
       else mem x)"
  using assms(2)
proof (induction K)
  case 0
  then show ?case by (auto simp add: replay_def)
next
  case (Suc K)
  have two: "\<And>j. j < sizeof_ptr TYPE('w) \<Longrightarrow> byte_of (mk K) j = 0xFF \<or> byte_of (mk K) j = 0x00"
    using Suc.prems [of K] by simp
  have IH: "replay mem (map (\<lambda>k. TMWrite (b + k * sizeof_ptr TYPE('w)) (ws ! k) (mk k)) [0..<K]) x =
      (if b \<le> x \<and> x < b + K * sizeof_ptr TYPE('w)
          \<and> byte_of (mk ((x - b) div sizeof_ptr TYPE('w))) ((x - b) mod sizeof_ptr TYPE('w)) = 0xFF
       then byte_of (ws ! ((x - b) div sizeof_ptr TYPE('w))) ((x - b) mod sizeof_ptr TYPE('w))
       else mem x)"
    using Suc.prems by (intro Suc.IH) simp
  let ?W = "sizeof_ptr TYPE('w)"
  let ?cs = "map (\<lambda>k. TMWrite (b + k * ?W) (ws ! k) (mk k)) [0..<K]"
  have W: "0 < ?W" using assms(1) by (rule sizeof_ptr_pos)
  have step: "replay mem (map (\<lambda>k. TMWrite (b + k * ?W) (ws ! k) (mk k)) [0..<Suc K]) x
      = masked_write (replay mem ?cs) (b + K * ?W) (ws ! K) (mk K) x"
    by (simp add: replay_snoc)
  note mw = masked_write_byte [OF assms(1), of "mk K" "replay mem ?cs" "b + K * ?W" "ws ! K" x,
      OF two]
  show ?case
  proof (cases "b + K * ?W \<le> x \<and> x < b + K * ?W + ?W")
    case True
    then have xb: "x - b = K * ?W + (x - (b + K * ?W))" and r: "x - (b + K * ?W) < ?W"
      by linarith+
    have d: "(x - b) div ?W = K" and m: "(x - b) mod ?W = x - (b + K * ?W)"
      using r by (simp_all add: xb)
    show ?thesis
      unfolding step using True by (simp add: mw IH d m)
  next
    case False
    then consider "x < b + K * ?W" | "b + K * ?W + ?W \<le> x" by linarith
    then show ?thesis
    proof cases
      case 1
      then show ?thesis
        unfolding step using False by (simp add: mw IH)
    next
      case 2
      then show ?thesis
        unfolding step using False by (simp add: mw IH)
    qed
  qed
qed

lemma bytes_of_loaded_words:
  fixes mem :: memory
  assumes "8 dvd LENGTH('w::len)" and "p < K * sizeof_ptr TYPE('w)"
  shows "bytes_of_words (map (\<lambda>k. load_word mem (b + k * sizeof_ptr TYPE('w)) :: 'w word) [0..<K]) ! p
       = mem (b + p)"
proof -
  let ?W = "sizeof_ptr TYPE('w)"
  have W: "0 < ?W" using assms(1) by (rule sizeof_ptr_pos)
  have k: "p div ?W < K" using assms(2) W by (simp add: less_mult_imp_div_less)
  have "b + p div ?W * ?W + p mod ?W = b + p" by simp
  then show ?thesis
    using k assms(2) W
    by (simp add: nth_bytes_of_words [OF W] byte_of_load_word [OF assms(1)] add.assoc)
qed

lemma write_then_read_words:
  fixes rd :: "addr \<Rightarrow> 'w::len word \<Rightarrow> 'w word" and mk :: "nat \<Rightarrow> 'w word"
  assumes "8 dvd LENGTH('w)" and "length buf = K * sizeof_ptr TYPE('w)"
    and "\<And>p. p < K * sizeof_ptr TYPE('w) \<Longrightarrow>
           byte_of (mk (p div sizeof_ptr TYPE('w))) (p mod sizeof_ptr TYPE('w))
             = (if lo \<le> p \<and> p < hi then 0xFF else 0x00)"
    and "lo \<le> off" and "off + sz \<le> hi" and "hi \<le> K * sizeof_ptr TYPE('w)"
    and "\<And>a m. rd a m AND m
           = load_word (replay mem (map (\<lambda>k. TMWrite (b + k * sizeof_ptr TYPE('w))
                                            ((words_of_bytes buf :: 'w word list) ! k) (mk k)) [0..<K])) a AND m"
  shows "load_T (bytes_of_words (map (\<lambda>k. rd (b + k * sizeof_ptr TYPE('w)) (mk k)) [0..<K])) off sz
       = Inr (take sz (drop off buf))"
proof -
  let ?W = "sizeof_ptr TYPE('w)"
  let ?ws = "words_of_bytes buf :: 'w word list"
  let ?mem' = "replay mem (map (\<lambda>k. TMWrite (b + k * ?W) (?ws ! k) (mk k)) [0..<K])"
  let ?rd' = "\<lambda>a (m :: 'w word). load_word ?mem' a :: 'w word"
  have W: "0 < ?W" using assms(1) by (rule sizeof_ptr_pos)
  have two: "\<And>k j. k < K \<Longrightarrow> j < ?W \<Longrightarrow> byte_of (mk k) j = 0xFF \<or> byte_of (mk k) j = 0x00"
  proof -
    fix k j
    assume k: "k < K" and j: "j < ?W"
    then have "Suc k \<le> K" by simp
    then have "Suc k * ?W \<le> K * ?W" by (rule mult_le_mono1)
    then have p: "k * ?W + j < K * ?W" using j by simp
    show "byte_of (mk k) j = 0xFF \<or> byte_of (mk k) j = 0x00"
      using assms(3) [OF p] j by auto
  qed
  have cover: "\<And>p. off \<le> p \<Longrightarrow> p < off + sz \<Longrightarrow> p < K * ?W \<Longrightarrow>
      byte_of (mk (p div ?W)) (p mod ?W) = 0xFF"
    using assms(3,4,5) by simp
  have fits: "off + sz \<le> K * ?W" using assms(5,6) by linarith
  have "load_T (bytes_of_words (map (\<lambda>k. rd (b + k * ?W) (mk k)) [0..<K])) off sz
      = load_T (bytes_of_words (map (\<lambda>k. ?rd' (b + k * ?W) (mk k)) [0..<K])) off sz"
    by (rule load_T_agree [OF W assms(7) cover])
  also have "\<dots> = Inr (take sz (drop off
       (bytes_of_words (map (\<lambda>k. load_word ?mem' (b + k * ?W) :: 'w word) [0..<K]))))"
    using fits by (simp add: load_T_def)
  also have "take sz (drop off
       (bytes_of_words (map (\<lambda>k. load_word ?mem' (b + k * ?W) :: 'w word) [0..<K])))
     = take sz (drop off buf)"
  proof (rule nth_equalityI)
    show "length (take sz (drop off
       (bytes_of_words (map (\<lambda>k. load_word ?mem' (b + k * ?W) :: 'w word) [0..<K]))))
       = length (take sz (drop off buf))"
      using assms(2) by simp
  next
    fix i
    assume "i < length (take sz (drop off
       (bytes_of_words (map (\<lambda>k. load_word ?mem' (b + k * ?W) :: 'w word) [0..<K]))))"
    then have i: "i < sz" by simp
    let ?p = "off + i"
    have p: "?p < K * ?W" using i fits by linarith
    have c: "byte_of (mk (?p div ?W)) (?p mod ?W) = 0xFF"
      using i p by (intro cover) simp_all
    have "bytes_of_words (map (\<lambda>k. load_word ?mem' (b + k * ?W) :: 'w word) [0..<K]) ! ?p
        = ?mem' (b + ?p)"
      by (rule bytes_of_loaded_words [OF assms(1) p])
    also have "\<dots> = byte_of (?ws ! (?p div ?W)) (?p mod ?W)"
      using p c by (simp add: replay_words [OF assms(1) two])
    also have "\<dots> = buf ! ?p"
      by (rule byte_of_words_of_bytes [OF assms(1,2) p])
    finally show "take sz (drop off
       (bytes_of_words (map (\<lambda>k. load_word ?mem' (b + k * ?W) :: 'w word) [0..<K]))) ! i
       = take sz (drop off buf) ! i"
      using i fits assms(2) by simp
  qed
  finally show ?thesis .
qed

lemma readback_selected: "readback mem junk a m AND m = load_word mem a AND m"
  by (rule bit_word_eqI) (auto simp add: readback_def bit_and_iff bit_or_iff bit_not_iff)

lemma take_drop_stored:
  assumes "off \<le> length Z"
  shows "take (length val) (drop off (take off Z @ val @ rest)) = val"
  using assms by simp

lemma length_stored:
  "off + length val \<le> length Z \<Longrightarrow> length (take off Z @ val @ drop (off + length val) Z) = length Z"
  by simp

lemma WriteUnaligned_words:
  fixes tx :: "'w::len word TxThread"
  assumes "1 \<le> N" and "offset + length val \<le> (N + 1) * sizeof_ptr TYPE('w)"
  shows "WriteUnaligned N tx addr val offset =
     Inr (tx\<lparr>calls := calls tx @
        map (\<lambda>k. TMWrite (base_of TYPE('w) addr + k * sizeof_ptr TYPE('w))
              ((words_of_bytes (take offset (bytes_of_words (replicate (N + 1) (0 :: 'w word))) @ val
                      @ drop (offset + length val) (bytes_of_words (replicate (N + 1) (0 :: 'w word))))
                 :: 'w word list) ! k)
              (unaligned_mask N offset k)) [0..<N + 1]\<rparr>)"
proof -
  obtain n where N: "N = Suc n" using assms(1) by (cases N) simp_all
  let ?W = "sizeof_ptr TYPE('w)"
  let ?to = "words_of_bytes (take offset (bytes_of_words (replicate (N + 1) (0 :: 'w word))) @ val
                      @ drop (offset + length val) (bytes_of_words (replicate (N + 1) (0 :: 'w word))))
                 :: 'w word list"
  let ?f = "\<lambda>(m :: 'w word) k. TMWrite (base_of TYPE('w) addr + k * ?W) (?to ! k) m"
  have "?f (make_mask offset ?W) 0 # map (\<lambda>k. ?f (make_mask 0 ?W) k) [Suc 0..<Suc n]
          @ [?f (make_mask 0 offset) (Suc n)]
        = map (\<lambda>k. ?f (unaligned_mask (Suc n) offset k) k) [0..<Suc (Suc n)]"
    by (rule unaligned_words_map)
  then have m: "TMWrite (base_of TYPE('w) addr) (?to ! 0) (make_mask offset ?W)
          # map (\<lambda>k. TMWrite (base_of TYPE('w) addr + k * ?W) (?to ! k) (make_mask 0 ?W)) [1..<N]
          @ [TMWrite (base_of TYPE('w) addr + N * ?W) (?to ! N) (make_mask 0 offset)]
        = map (\<lambda>k. TMWrite (base_of TYPE('w) addr + k * ?W) (?to ! k) (unaligned_mask N offset k))
            [0..<N + 1]"
    by (simp add: N del: upt_Suc replicate.simps)
  show ?thesis
    unfolding WriteUnaligned_eq [OF assms(2)] Let_def m ..
qed

lemma unaligned_round_trip:
  fixes tx tx2 :: "'w::len word TxThread"
  assumes "8 dvd LENGTH('w)" and "1 \<le> N" and "0 < offset" and "offset < sizeof_ptr TYPE('w)"
    and "length val \<le> N * sizeof_ptr TYPE('w)"
    and "WriteUnaligned N tx addr val offset = Inr tx'"
    and "\<And>a m. tmread_result tx2 a m AND m = load_word (replay mem (calls tx')) a AND m"
  shows "fst (ReadUnaligned N (length val) tx2 addr offset) = Inr val"
proof -
  let ?W = "sizeof_ptr TYPE('w)"
  let ?Z = "bytes_of_words (replicate (N + 1) (0 :: 'w word))"
  let ?buf = "take offset ?Z @ val @ drop (offset + length val) ?Z"
  let ?b = "base_of TYPE('w) addr"
  let ?cs = "map (\<lambda>k. TMWrite (?b + k * ?W) ((words_of_bytes ?buf :: 'w word list) ! k)
              (unaligned_mask N offset k)) [0..<N + 1]"
  have fits: "offset + length val \<le> (N + 1) * ?W"
    using assms(4,5) by simp
  have tx': "calls tx' = calls tx @ ?cs"
    using assms(6) unfolding WriteUnaligned_words [OF assms(2) fits] by auto
  have lenZ: "length ?Z = (N + 1) * ?W" by simp
  have fitsZ: "offset + length val \<le> length ?Z"
    using fits unfolding lenZ .
  have lenbuf: "length ?buf = (N + 1) * ?W"
    using length_stored [OF fitsZ] unfolding lenZ .
  have rd: "\<And>a m. tmread_result tx2 a m AND m
      = load_word (replay (replay mem (calls tx)) ?cs) a AND m"
    using assms(7) by (simp add: tx' replay_append)
  have hi: "offset + N * ?W \<le> (N + 1) * ?W" using assms(4) by simp
  have "load_T (bytes_of_words (map (\<lambda>k. tmread_result tx2 (?b + k * ?W) (unaligned_mask N offset k))
                [0..<N + 1])) offset (length val)
      = Inr (take (length val) (drop offset ?buf))"
    by (rule write_then_read_words [OF assms(1) lenbuf unaligned_mask_bytes [OF assms(1,2,3,4)]
          order_refl _ hi rd]) (use assms(5) in simp_all)
  moreover have "take (length val) (drop offset ?buf) = val"
    using fitsZ by (intro take_drop_stored) linarith
  ultimately show ?thesis
    by (simp add: ReadUnaligned_eq [OF assms(2)])
qed

lemma INST_N_true_Write_eq:
  fixes tx :: "'w::len word TxThread"
  assumes "N * sizeof_ptr TYPE('w) \<le> length val"
  shows "INST_N_true_Write N tx addr val =
     Inr (tx\<lparr>calls := calls tx @
        map (\<lambda>k. TMWrite (addr + k * sizeof_ptr TYPE('w))
              ((words_of_bytes val :: 'w word list) ! k) (make_mask 0 (sizeof_ptr TYPE('w)))) [0..<N]\<rparr>)"
  using assms by (simp add: INST_N_true_Write_def Let_def write_loop_eq)

lemma aligned_round_trip:
  fixes tx tx2 :: "'w::len word TxThread"
  assumes "8 dvd LENGTH('w)" and "length val = N * sizeof_ptr TYPE('w)"
    and "INST_N_true_Write N tx addr val = Inr tx'"
    and "\<And>a m. tmread_result tx2 a m AND m = load_word (replay mem (calls tx')) a AND m"
  shows "fst (INST_N_true_Read N (length val) tx2 addr) = Inr val"
proof -
  let ?W = "sizeof_ptr TYPE('w)"
  let ?mk = "\<lambda>k :: nat. make_mask 0 ?W :: 'w word"
  let ?cs = "map (\<lambda>k. TMWrite (addr + k * ?W) ((words_of_bytes val :: 'w word list) ! k) (?mk k)) [0..<N]"
  have W: "0 < ?W" using assms(1) by (rule sizeof_ptr_pos)
  have le: "N * ?W \<le> length val" using assms(2) by simp
  have tx': "calls tx' = calls tx @ ?cs"
    using assms(3) unfolding INST_N_true_Write_eq [OF le] by auto
  have rd: "\<And>a m. tmread_result tx2 a m AND m
      = load_word (replay (replay mem (calls tx)) ?cs) a AND m"
    using assms(4) by (simp add: tx' replay_append)
  have cover: "\<And>p. p < N * ?W \<Longrightarrow>
      byte_of (?mk (p div ?W)) (p mod ?W) = (if 0 \<le> p \<and> p < N * ?W then 0xFF else 0x00)"
    using W by (simp add: byte_of_make_mask [OF assms(1)])
  have "load_T (bytes_of_words (map (\<lambda>k. tmread_result tx2 (addr + k * ?W) (?mk k)) [0..<N]))
           0 (length val)
      = Inr (take (length val) (drop 0 val))"
    by (rule write_then_read_words [OF assms(1,2) cover order_refl _ order_refl rd])
      (use assms(2) in simp_all)
  then show ?thesis
    using assms(2) by (simp add: INST_N_true_Read_eq)
qed

lemma words_of_one_word:
  assumes "0 < sizeof_ptr TYPE('w::len)" and "length buf = sizeof_ptr TYPE('w)"
  shows "(words_of_bytes buf :: 'w word list) = [word_of_bytes buf]"
  using assms by (simp add: words_of_bytes_def)

lemma subword_round_trip:
  fixes tx tx2 :: "'w::len word TxThread"
  assumes "8 dvd LENGTH('w)" and "1 \<le> length val"
    and "offset_of TYPE('w) addr + length val \<le> sizeof_ptr TYPE('w)"
    and "INST_0_true_Write tx addr val = Inr tx'"
    and "\<And>a m. tmread_result tx2 a m AND m = load_word (replay mem (calls tx')) a AND m"
  shows "fst (INST_0_true_Read (length val) tx2 addr) = Inr val"
proof -
  let ?W = "sizeof_ptr TYPE('w)"
  let ?off = "offset_of TYPE('w) addr"
  let ?Z = "bytes_of_word (0 :: 'w word)"
  let ?buf = "take ?off ?Z @ val @ drop (?off + length val) ?Z"
  let ?b = "base_of TYPE('w) addr"
  let ?mk = "\<lambda>k :: nat. make_mask ?off (?off + length val) :: 'w word"
  let ?cs = "map (\<lambda>k. TMWrite (?b + k * ?W) ((words_of_bytes ?buf :: 'w word list) ! k) (?mk k)) [0..<1]"
  have W: "0 < ?W" using assms(1) by (rule sizeof_ptr_pos)
  have fitsZ: "?off + length val \<le> length ?Z" using assms(3) by simp
  have lenbuf: "length ?buf = 1 * ?W"
    using length_stored [OF fitsZ] by simp
  have one: "(words_of_bytes ?buf :: 'w word list) = [word_of_bytes ?buf]"
    using lenbuf by (intro words_of_one_word [OF W]) simp
  have tx': "calls tx' = calls tx @ ?cs"
    using assms(4) unfolding INST_0_true_Write_eq [OF assms(3)] one by auto
  have rd: "\<And>a m. tmread_result tx2 a m AND m
      = load_word (replay (replay mem (calls tx)) ?cs) a AND m"
    using assms(5) by (simp only: tx' replay_append)
  have lt: "?off < ?off + length val" using assms(2) by linarith
  have cover: "\<And>p. p < 1 * ?W \<Longrightarrow>
      byte_of (?mk (p div ?W)) (p mod ?W)
        = (if ?off \<le> p \<and> p < ?off + length val then 0xFF else 0x00)"
    by (simp add: byte_of_make_mask [OF assms(1) lt assms(3)])
  have hi: "?off + length val \<le> 1 * ?W" using assms(3) by simp
  have "load_T (bytes_of_words (map (\<lambda>k. tmread_result tx2 (?b + k * ?W) (?mk k)) [0..<1]))
           ?off (length val)
      = Inr (take (length val) (drop ?off ?buf))"
    by (rule write_then_read_words [OF assms(1) lenbuf cover order_refl order_refl hi rd])
  moreover have "take (length val) (drop ?off ?buf) = val"
    using fitsZ by (intro take_drop_stored) linarith
  ultimately show ?thesis
    unfolding INST_0_true_Read_eq by simp
qed

text \<open>
  The barriers of \<open>libitm-5.12.cpp\<close> do return the value written, on every path: for a
  value of at least one byte, of a type that is smaller than a word or a whole number of
  words, at any address; a type smaller than a word that the architecture declares
  aligned must not cross a word boundary, which is what the declaration says.
\<close>

lemma INST_round_trip:
  fixes tx :: "'w::len word TxThread"
  assumes "8 dvd LENGTH('w)" and "1 \<le> length val"
    and "length val < sizeof_ptr TYPE('w) \<or> sizeof_ptr TYPE('w) dvd length val"
    and "A \<longrightarrow> length val < sizeof_ptr TYPE('w)
           \<longrightarrow> offset_of TYPE('w) addr + length val \<le> sizeof_ptr TYPE('w)"
  shows "INST_write_then_read A tx mem junk addr val = Inr val"
proof -
  let ?W = "sizeof_ptr TYPE('w)"
  let ?off = "offset_of TYPE('w) addr"
  let ?sz = "length val"
  let ?N = "?sz div ?W"
  have W: "0 < ?W" using assms(1) by (rule sizeof_ptr_pos)
  have off: "?off < ?W" using assms(1) by (rule offset_of_less)
  have sel: "\<And>tx' a m. tmread_result (tx'\<lparr>tmread_result := readback (replay mem (calls tx')) junk\<rparr>) a m AND m
      = load_word (replay mem (calls (tx'\<lparr>tmread_result := readback (replay mem (calls tx')) junk\<rparr>))) a AND m"
    for tx' :: "'w word TxThread"
    by (simp add: readback_selected)
  show ?thesis
  proof (cases "?N = 0")
    case True
    then have sz: "?sz < ?W" using W by (simp add: div_eq_0_iff)
    show ?thesis
    proof (cases "?off + ?sz \<le> ?W")
      case fit: True
      obtain tx' where w: "INST_0_true_Write tx addr val = Inr tx'"
        using INST_0_true_Write_eq [OF fit] by blast
      have W': "INST_Write A tx addr val = Inr tx'"
        using True fit w by (simp add: INST_Write_def INST_0_false_Write_def Let_def)
      have R': "INST_Read A ?sz (tx'\<lparr>tmread_result := readback (replay mem (calls tx')) junk\<rparr>) addr
          = INST_0_true_Read ?sz (tx'\<lparr>tmread_result := readback (replay mem (calls tx')) junk\<rparr>) addr"
        using True fit by (simp add: INST_Read_def INST_0_false_Read_def Let_def)
      have "fst (INST_0_true_Read ?sz (tx'\<lparr>tmread_result := readback (replay mem (calls tx')) junk\<rparr>) addr)
          = Inr val"
        by (rule subword_round_trip [OF assms(1,2) fit w]) (simp add: readback_selected)
      then show ?thesis
        by (simp add: INST_write_then_read_def W' R')
    next
      case nofit: False
      then have notA: "\<not> A" using assms(4) sz by blast
      have pos: "0 < ?off" using nofit sz by linarith
      have le: "?sz \<le> 1 * ?W" using sz by simp
      have fits: "?off + ?sz \<le> (1 + 1) * ?W" using sz off by simp
      obtain tx' where w: "WriteUnaligned 1 tx addr val ?off = Inr tx'"
        using WriteUnaligned_words [OF order_refl fits] by blast
      have W': "INST_Write A tx addr val = Inr tx'"
        using True nofit notA w by (simp add: INST_Write_def INST_0_false_Write_def Let_def)
      have R': "INST_Read A ?sz (tx'\<lparr>tmread_result := readback (replay mem (calls tx')) junk\<rparr>) addr
          = ReadUnaligned 1 ?sz (tx'\<lparr>tmread_result := readback (replay mem (calls tx')) junk\<rparr>) addr ?off"
        using True nofit notA by (simp add: INST_Read_def INST_0_false_Read_def Let_def)
      have "fst (ReadUnaligned 1 ?sz (tx'\<lparr>tmread_result := readback (replay mem (calls tx')) junk\<rparr>) addr ?off)
          = Inr val"
        by (rule unaligned_round_trip [OF assms(1) order_refl pos off le w])
          (simp add: readback_selected)
      then show ?thesis
        by (simp add: INST_write_then_read_def W' R')
    qed
  next
    case False
    then have "\<not> ?sz < ?W" using W by (simp add: div_eq_0_iff)
    then have "?W dvd ?sz" using assms(3) by simp
    then have sz: "?sz = ?N * ?W" by simp
    have N: "1 \<le> ?N" using False by simp
    show ?thesis
    proof (cases "A \<or> ?off = 0")
      case al: True
      have le: "?N * ?W \<le> ?sz" using sz by simp
      obtain tx' where w: "INST_N_true_Write ?N tx addr val = Inr tx'"
        using INST_N_true_Write_eq [OF le] by blast
      have W': "INST_Write A tx addr val = Inr tx'"
        using False al w by (auto simp add: INST_Write_def INST_N_false_Write_def Let_def)
      have R': "INST_Read A ?sz (tx'\<lparr>tmread_result := readback (replay mem (calls tx')) junk\<rparr>) addr
          = INST_N_true_Read ?N ?sz (tx'\<lparr>tmread_result := readback (replay mem (calls tx')) junk\<rparr>) addr"
        using False al by (auto simp add: INST_Read_def INST_N_false_Read_def Let_def)
      have "fst (INST_N_true_Read ?N ?sz (tx'\<lparr>tmread_result := readback (replay mem (calls tx')) junk\<rparr>) addr)
          = Inr val"
        by (rule aligned_round_trip [OF assms(1) sz w]) (simp add: readback_selected)
      then show ?thesis
        by (simp add: INST_write_then_read_def W' R')
    next
      case un: False
      then have pos: "0 < ?off" and notA: "\<not> A" by simp_all
      have le: "?sz \<le> ?N * ?W" using sz by simp
      have fits: "?off + ?sz \<le> (?N + 1) * ?W" using sz off by simp
      obtain tx' where w: "WriteUnaligned ?N tx addr val ?off = Inr tx'"
        using WriteUnaligned_words [OF N fits] by blast
      have W': "INST_Write A tx addr val = Inr tx'"
        using False un w by (simp add: INST_Write_def INST_N_false_Write_def Let_def)
      have R': "INST_Read A ?sz (tx'\<lparr>tmread_result := readback (replay mem (calls tx')) junk\<rparr>) addr
          = ReadUnaligned ?N ?sz (tx'\<lparr>tmread_result := readback (replay mem (calls tx')) junk\<rparr>) addr ?off"
        using False un by (simp add: INST_Read_def INST_N_false_Read_def Let_def)
      have "fst (ReadUnaligned ?N ?sz (tx'\<lparr>tmread_result := readback (replay mem (calls tx')) junk\<rparr>) addr ?off)
          = Inr val"
        by (rule unaligned_round_trip [OF assms(1) N pos off le w]) (simp add: readback_selected)
      then show ?thesis
        by (simp add: INST_write_then_read_def W' R')
    qed
  qed
qed

text \<open>
  Claim C1 asks that a write followed by a read of the same address return the value
  written, at every address. \<open>read\<close> and \<open>write\<close> of \<open>inst.hpp\<close> do not do that at an
  address that is not word-aligned when the buffer has two words or more: the write goes
  through, and the read, from a primitive that returns the bytes last stored, stops at
  the store into \<open>words[N]\<close>, one past the end of its buffer, and returns no value.
\<close>

theorem inst_round_trip_fails:
  fixes stx :: "'w::len word TX"
  assumes "8 dvd LENGTH('w)" and "\<And>a s m. \<not> fst (hit raw a s m)" and "\<not> prefilter addr"
    and "2 \<le> length words" and "length words' = length words"
    and "OffsetOf TYPE('w) addr \<noteq> 0"
    and "OffsetOf TYPE('w) addr + length val \<le> length words * sizeof_ptr TYPE('w)"
  shows "inst_write_then_read prefilter raw stx mem junk words words' addr val = Inl OutOfBounds
       \<and> inst_write_then_read prefilter raw stx mem junk words words' addr val \<noteq> Inr val"
proof -
  have ne: "words \<noteq> []" using assms(4) by auto
  obtain stx' where w: "inst_write prefilter stx mem words addr val = Inr (stx', mem)"
    using inst_write_eq [where prefilter = prefilter and addr = addr, OF assms(3) ne assms(7)]
    by (simp add: Let_def)
  have len: "2 \<le> length words'" using assms(4,5) by simp
  let ?stx2 = "stx'\<lparr>alg_tm_read_aligned_word := readback (replay mem (accesses stx')) junk\<rparr>"
  note rw = read_words_nohit [OF assms(2) len refl assms(6), of "length val" ?stx2 "BaseOf TYPE('w) addr"]
  have "fst (inst_read (length val) prefilter raw False ?stx2 mem words' addr) = Inl OutOfBounds"
    using assms(3) by (simp add: inst_read_def Let_def rw)
  then show ?thesis
    by (simp add: inst_write_then_read_def w)
qed

text \<open>Eight bytes at offset 4 of a 64-bit word, buffers of two words.\<close>

theorem inst_round_trip_fails_witness:
  "inst_write_then_read (\<lambda>a. False) NoRAW
      \<lparr>alg_tm_read_aligned_word = (\<lambda>a m. 0 :: 64 word),
       alg_tm_read_aligned_word_ro = (\<lambda>a m. 0), accesses = []\<rparr>
      (\<lambda>a. 0) (\<lambda>a m. 0) [0x1111111111111111, 0x2222222222222222] [0, 0]
      0x1004 [1, 2, 3, 4, 5, 6, 7, 8]
    = Inl OutOfBounds"
proof -
  have W: "sizeof_ptr TYPE(64) = 8"
    by (simp add: sizeof_ptr_def)
  have off: "OffsetOf TYPE(64) 0x1004 = 4"
    by (simp add: OffsetOf_def W)
  have h1: "8 dvd LENGTH(64)" by simp
  have h2: "\<And>a s m. \<not> fst (hit (NoRAW :: 64 word RAW) a s m)" by (simp add: NoRAW_def)
  have h3: "\<not> (\<lambda>a :: addr. False) 0x1004" by simp
  have h4: "2 \<le> length [0x1111111111111111, 0x2222222222222222 :: 64 word]" by simp
  have h5: "length [0, 0 :: 64 word] = length [0x1111111111111111, 0x2222222222222222 :: 64 word]"
    by simp
  have h6: "OffsetOf TYPE(64) 0x1004 \<noteq> 0" by (simp add: off)
  have h7: "OffsetOf TYPE(64) 0x1004 + length [1, 2, 3, 4, 5, 6, 7, 8 :: byte]
             \<le> length [0x1111111111111111, 0x2222222222222222 :: 64 word] * sizeof_ptr TYPE(64)"
    by (simp add: off W)
  from inst_round_trip_fails [where prefilter = "\<lambda>a. False" and addr = "0x1004",
      OF h1 h2 h3 h4 h5 h6 h7]
  show ?thesis by blast
qed

text \<open>Eight bytes at offset 4 of a 64-bit word come back through the unaligned path.\<close>

lemma INST_round_trip_example:
  "INST_write_then_read False \<lparr>tmread_result = (\<lambda>a m. 0 :: 64 word), calls = []\<rparr>
      (\<lambda>a. 0) (\<lambda>a m. 0) 0x1004 [1, 2, 3, 4, 5, 6, 7, 8]
    = Inr [1, 2, 3, 4, 5, 6, 7, 8]"
proof -
  have W: "sizeof_ptr TYPE(64) = 8"
    by (simp add: sizeof_ptr_def)
  have h1: "8 dvd LENGTH(64)" by simp
  have h2: "1 \<le> length [1, 2, 3, 4, 5, 6, 7, 8 :: byte]" by simp
  have len: "length [1, 2, 3, 4, 5, 6, 7, 8 :: byte] = 8" by simp
  have h3: "length [1, 2, 3, 4, 5, 6, 7, 8 :: byte] < sizeof_ptr TYPE(64)
      \<or> sizeof_ptr TYPE(64) dvd length [1, 2, 3, 4, 5, 6, 7, 8 :: byte]"
    unfolding len W by simp
  have h4: "False \<longrightarrow> length [1, 2, 3, 4, 5, 6, 7, 8 :: byte] < sizeof_ptr TYPE(64)
           \<longrightarrow> offset_of TYPE(64) 0x1004 + length [1, 2, 3, 4, 5, 6, 7, 8 :: byte] \<le> sizeof_ptr TYPE(64)"
    by simp
  show ?thesis
    by (rule INST_round_trip [OF h1 h2 h3 h4])
qed

end
